theory Spec2Isabelle
  imports Complex_Main "HOL-Library.AList"
begin

section \<open>Data model (core/types.ts)\<close>

text \<open>
  A TypeScript \<open>number\<close> is modelled as a real, and the rounding of the machine
  arithmetic is explicit: every addition, subtraction, multiplication and division of
  the source is the exact operation followed by a rounding function \<open>fl\<close>, which the
  token bucket and the policy engine take as their first parameter (section
  "Machine arithmetic"). Comparisons, \<open>Math.min\<close>, \<open>Math.max\<close> and \<open>Math.ceil\<close> are
  exact on the numbers that can be represented. The values NaN and Infinity have no
  counterpart here. Counts of store entries and the two store limits are integers. An
  optional field \<open>f?: T\<close> is a \<open>T option\<close>.
\<close>

datatype RuleMode = Block | Challenge

datatype FailMode = Open | Closed

datatype DecisionOutcome = ALLOWED | BLOCKED | CHALLENGE

record RateLimitRule =
  rule_name :: string
  rule_key :: "string list"
  rule_capacity :: real
  rule_refillTokens :: real
  rule_refillIntervalMs :: real
  rule_cost :: "real option"
  rule_mode :: "RuleMode option"
  rule_ttlMs :: "real option"

record ActionPolicy =
  policy_id :: string
  rules :: "RateLimitRule list"
  failMode :: FailMode

record TokenBucketState =
  tokens :: real
  lastRefillTime :: real
  createdAt :: real
  expiresAt :: real

record ConsumeResult =
  cr_allowed :: bool
  cr_remainingTokens :: real
  cr_retryAfterMs :: real
  bucketState :: TokenBucketState

record RuleResult =
  ruleName :: string
  rr_key :: string
  rr_allowed :: bool
  rr_outcome :: DecisionOutcome
  rr_retryAfterMs :: real
  rr_remainingTokens :: real
  rr_challenge :: "string option"

record RateLimitDecision =
  allowed :: bool
  action :: string
  outcome :: DecisionOutcome
  retryAfterMs :: real
  ruleResults :: "RuleResult list"
  keys :: "string \<rightharpoonup> string"
  challenge :: "string option"
  failedDueToError :: "bool option"

text \<open>
  The request context: the well-known optional fields, the mandatory action, and the
  index signature \<open>[key: string]: string | undefined\<close> as a side map.
\<close>

record RequestContext =
  ctx_ip :: "string option"
  ctx_emailHash :: "string option"
  ctx_phoneHash :: "string option"
  ctx_userId :: "string option"
  ctx_sessionId :: "string option"
  ctx_action :: string
  ctx_route :: "string option"
  ctx_custom :: "string \<rightharpoonup> string"

text \<open>
  A thrown JavaScript value: an \<open>Error\<close> with its message, or any other value,
  kept as the string \<open>String(value)\<close> gives.
\<close>

datatype thrown = ErrorValue string | OtherValue string

section \<open>Machine arithmetic\<close>

text \<open>
  A rounding function maps the exact result of an operation to the number the machine
  stores. \<open>exact\<close> is arithmetic without rounding. \<open>roundDouble\<close> is rounding to the
  nearest IEEE 754 double, ties to even, with gradual underflow below \<open>2 ^ -1022\<close>
  and without overflow: a number with \<open>2 ^ e \<le> |x| < 2 ^ (e + 1)\<close> is rounded to a
  multiple of \<open>2 ^ (e - 52)\<close>. The definitions of the program are stated for any
  rounding function; what a theorem needs of it is a hypothesis of that theorem.
\<close>

type_synonym rounding = "real \<Rightarrow> real"

definition exact :: rounding where
  "exact x = x"

definition roundHalfEven :: "real \<Rightarrow> int" where
  "roundHalfEven y =
     (let f = \<lfloor>y\<rfloor>; d = y - of_int f
      in if d < 1 / 2 then f else if d > 1 / 2 then f + 1
         else if even f then f else f + 1)"

definition roundDouble :: rounding where
  "roundDouble x =
     (if x = 0 then 0
      else (let e = max \<lfloor>log 2 \<bar>x\<bar>\<rfloor> (- 1022);
                q = 2 powr (of_int e - 52)
            in of_int (roundHalfEven (x / q)) * q))"

section \<open>Token bucket (core/tokenBucket.ts)\<close>

record TokenBucketConfig =
  capacity :: real
  refillTokens :: real
  refillIntervalMs :: real

definition calculateRefillTokens :: "rounding \<Rightarrow> real \<Rightarrow> TokenBucketConfig \<Rightarrow> real" where
  "calculateRefillTokens fl elapsedMs config =
     (if elapsedMs \<le> 0 \<or> refillIntervalMs config \<le> 0 then 0
      else (let intervals = fl (elapsedMs / refillIntervalMs config)
            in fl (intervals * refillTokens config)))"

definition refillBucket ::
  "rounding \<Rightarrow> TokenBucketState \<Rightarrow> TokenBucketConfig \<Rightarrow> real \<Rightarrow> TokenBucketState" where
  "refillBucket fl st config currentTime =
     (let elapsedMs = fl (currentTime - lastRefillTime st)
      in if elapsedMs \<le> 0 then st
         else (let tokensToAdd = calculateRefillTokens fl elapsedMs config;
                   newTokens = min (capacity config) (fl (tokens st + tokensToAdd))
               in st\<lparr>tokens := newTokens, lastRefillTime := currentTime\<rparr>))"

definition createBucket :: "rounding \<Rightarrow> TokenBucketConfig \<Rightarrow> real \<Rightarrow> real \<Rightarrow> TokenBucketState" where
  "createBucket fl config currentTime ttlMs =
     \<lparr>tokens = capacity config, lastRefillTime = currentTime,
      createdAt = currentTime, expiresAt = fl (currentTime + ttlMs)\<rparr>"

definition MAX_SAFE_INTEGER :: real where
  "MAX_SAFE_INTEGER = 9007199254740991"

definition calculateRetryAfterMs :: "rounding \<Rightarrow> real \<Rightarrow> TokenBucketConfig \<Rightarrow> real" where
  "calculateRetryAfterMs fl tokensNeeded config =
     (if tokensNeeded \<le> 0 then 0
      else if refillTokens config \<le> 0 \<or> refillIntervalMs config \<le> 0 then MAX_SAFE_INTEGER
      else (let intervalsNeeded = fl (tokensNeeded / refillTokens config)
            in of_int \<lceil>fl (intervalsNeeded * refillIntervalMs config)\<rceil>))"

definition consumeTokens ::
  "rounding \<Rightarrow> TokenBucketState \<Rightarrow> TokenBucketConfig \<Rightarrow> real \<Rightarrow> real \<Rightarrow> real
     \<Rightarrow> ConsumeResult" where
  "consumeTokens fl st config cost currentTime ttlMs =
     (let refilledState = refillBucket fl st config currentTime
      in if tokens refilledState \<ge> cost then
           (let newState = refilledState\<lparr>tokens := fl (tokens refilledState - cost),
                                         expiresAt := fl (currentTime + ttlMs)\<rparr>
            in \<lparr>cr_allowed = True, cr_remainingTokens = tokens newState,
                cr_retryAfterMs = 0, bucketState = newState\<rparr>)
         else
           (let tokensNeeded = fl (cost - tokens refilledState);
                retryAfter = calculateRetryAfterMs fl tokensNeeded config;
                updatedState = refilledState\<lparr>expiresAt := fl (currentTime + ttlMs)\<rparr>
            in \<lparr>cr_allowed = False, cr_remainingTokens = tokens refilledState,
                cr_retryAfterMs = retryAfter, bucketState = updatedState\<rparr>))"

definition ruleToConfig :: "RateLimitRule \<Rightarrow> TokenBucketConfig" where
  "ruleToConfig rule =
     \<lparr>capacity = rule_capacity rule, refillTokens = rule_refillTokens rule,
      refillIntervalMs = rule_refillIntervalMs rule\<rparr>"

text \<open>
  With \<open>refillTokens = 0\<close> and no \<open>ttlMs\<close> the source divides by zero and gets
  Infinity or NaN; the model has no such value and no theorem below depends on the
  time-to-live computed in that case.
\<close>

definition calculateDefaultTtl :: "rounding \<Rightarrow> RateLimitRule \<Rightarrow> real" where
  "calculateDefaultTtl fl rule =
     (case rule_ttlMs rule of
        Some t \<Rightarrow> t
      | None \<Rightarrow>
          (let fullRefillTime =
                 fl (fl (rule_capacity rule / rule_refillTokens rule) * rule_refillIntervalMs rule)
           in of_int \<lceil>fl (fullRefillTime * 2)\<rceil>))"

definition isBucketExpired :: "TokenBucketState \<Rightarrow> real \<Rightarrow> bool" where
  "isBucketExpired st currentTime \<longleftrightarrow> currentTime \<ge> expiresAt st"

section \<open>Decisions (core/decision.ts)\<close>

text \<open>JavaScript truthiness of an optional string: present and not empty.\<close>

fun truthy :: "string option \<Rightarrow> bool" where
  "truthy None = False"
| "truthy (Some s) = (s \<noteq> [])"

text \<open>The four variables the scan of \<open>combineRuleResults\<close> updates.\<close>

record CombineScan =
  hasBlock :: bool
  hasChallenge :: bool
  maxRetryAfterMs :: real
  challengeHint :: "string option"

definition scanStart :: CombineScan where
  "scanStart = \<lparr>hasBlock = False, hasChallenge = False, maxRetryAfterMs = 0, challengeHint = None\<rparr>"

definition scanStep :: "CombineScan \<Rightarrow> RuleResult \<Rightarrow> CombineScan" where
  "scanStep acc result =
     (if rr_outcome result = BLOCKED then
        acc\<lparr>hasBlock := True,
            maxRetryAfterMs := max (maxRetryAfterMs acc) (rr_retryAfterMs result)\<rparr>
      else if rr_outcome result = CHALLENGE then
        acc\<lparr>hasChallenge := True,
            challengeHint := (if truthy (challengeHint acc) then challengeHint acc
                              else rr_challenge result)\<rparr>
      else acc)"

definition combineRuleResults ::
  "string \<Rightarrow> RuleResult list \<Rightarrow> (string \<rightharpoonup> string) \<Rightarrow> RateLimitDecision" where
  "combineRuleResults act results ks =
     (if length results = 0 then
        \<lparr>allowed = True, action = act, outcome = ALLOWED, retryAfterMs = 0,
         ruleResults = [], keys = ks, challenge = None, failedDueToError = None\<rparr>
      else
        (let acc = foldl scanStep scanStart results;
             oc = (if hasBlock acc then BLOCKED
                   else if hasChallenge acc then CHALLENGE else ALLOWED);
             al = (if hasBlock acc then False else True)
         in \<lparr>allowed = al, action = act, outcome = oc,
             retryAfterMs = maxRetryAfterMs acc, ruleResults = results, keys = ks,
             challenge = (if truthy (challengeHint acc) then challengeHint acc else None),
             failedDueToError = None\<rparr>))"

definition errorMessage :: "thrown \<Rightarrow> string" where
  "errorMessage e = (case e of ErrorValue m \<Rightarrow> m | OtherValue s \<Rightarrow> s)"

definition createErrorDecision :: "string \<Rightarrow> FailMode \<Rightarrow> thrown \<Rightarrow> RateLimitDecision" where
  "createErrorDecision act fm err =
     (let al = (fm = Open);
          oc = (if al then ALLOWED else BLOCKED)
      in \<lparr>allowed = al, action = act, outcome = oc,
          retryAfterMs = (if al then 0 else 60000),
          ruleResults =
            [\<lparr>ruleName = ''store_error'', rr_key = ''error'', rr_allowed = al,
              rr_outcome = oc, rr_retryAfterMs = (if al then 0 else 60000),
              rr_remainingTokens = 0,
              rr_challenge = Some (''Store error: '' @ errorMessage err)\<rparr>],
          keys = Map.empty, challenge = None, failedDueToError = Some True\<rparr>)"

definition createAllowedDecision :: "string \<Rightarrow> RateLimitDecision" where
  "createAllowedDecision act =
     \<lparr>allowed = True, action = act, outcome = ALLOWED, retryAfterMs = 0,
      ruleResults = [], keys = Map.empty, challenge = None, failedDueToError = None\<rparr>"

section \<open>Key builder (core/keyBuilder.ts)\<close>

abbreviation KEY_SEPARATOR :: char where
  "KEY_SEPARATOR \<equiv> CHR '':''"

abbreviation VALUE_SEPARATOR :: char where
  "VALUE_SEPARATOR \<equiv> CHR ''=''"

type_synonym KeyExtractor = "string \<Rightarrow> RequestContext \<Rightarrow> string option"

definition defaultKeyExtractor :: KeyExtractor where
  "defaultKeyExtractor dimension context =
     (if dimension = ''ip'' then ctx_ip context
      else if dimension = ''emailHash'' then ctx_emailHash context
      else if dimension = ''phoneHash'' then ctx_phoneHash context
      else if dimension = ''userId'' then ctx_userId context
      else if dimension = ''sessionId'' then ctx_sessionId context
      else if dimension = ''action'' then Some (ctx_action context)
      else if dimension = ''route'' then ctx_route context
      else ctx_custom context dimension)"

text \<open>\<open>value.replace(/[:=]/g, '_')\<close>\<close>

definition sanitizeValue :: "string \<Rightarrow> string" where
  "sanitizeValue v =
     map (\<lambda>c. if c = KEY_SEPARATOR \<or> c = VALUE_SEPARATOR then CHR ''_'' else c) v"

text \<open>\<open>Array.prototype.join\<close> and \<open>String.prototype.split\<close> with a one-character separator.\<close>

fun joinWith :: "char \<Rightarrow> string list \<Rightarrow> string" where
  "joinWith sep [] = []"
| "joinWith sep [p] = p"
| "joinWith sep (p # q # ps) = p @ sep # joinWith sep (q # ps)"

fun splitOn :: "char \<Rightarrow> string \<Rightarrow> string list" where
  "splitOn sep [] = [[]]"
| "splitOn sep (c # cs) =
     (if c = sep then [] # splitOn sep cs
      else (case splitOn sep cs of [] \<Rightarrow> [[c]] | p # ps \<Rightarrow> (c # p) # ps))"

text \<open>
  The loop of \<open>buildKey\<close> over the rule's dimensions: it returns early with no key at
  the first dimension whose value is undefined or empty, and pushes one part otherwise.
\<close>

fun buildParts ::
  "KeyExtractor \<Rightarrow> RequestContext \<Rightarrow> string list \<Rightarrow> string list \<Rightarrow> string list option" where
  "buildParts extractor context parts [] = Some parts"
| "buildParts extractor context parts (dimension # ds) =
     (case extractor dimension context of
        None \<Rightarrow> None
      | Some v \<Rightarrow>
          if v = [] then None
          else buildParts extractor context
                 (parts @ [dimension @ VALUE_SEPARATOR # sanitizeValue v]) ds)"

definition buildKey ::
  "string \<Rightarrow> RateLimitRule \<Rightarrow> RequestContext \<Rightarrow> KeyExtractor \<Rightarrow> string option" where
  "buildKey act rule context extractor =
     (case buildParts extractor context [act, rule_name rule] (rule_key rule) of
        None \<Rightarrow> None
      | Some parts \<Rightarrow> Some (joinWith KEY_SEPARATOR parts))"

record ParsedKey =
  pk_action :: string
  pk_ruleName :: string
  pk_dimensions :: "string \<rightharpoonup> string"

text \<open>
  One turn of the loop of \<open>parseKey\<close> over the segments after the second. The
  dimensions are collected in a plain object, whose own properties the map stands for:
  the assignment \<open>dimensions[dimName] = dimValue\<close> adds or replaces an own property
  for every name but \<open>__proto__\<close>, where it reaches the setter of \<open>Object.prototype\<close>,
  which ignores a string and leaves the object as it was.
\<close>

definition parseSegment :: "(string \<rightharpoonup> string) \<Rightarrow> string \<Rightarrow> (string \<rightharpoonup> string)" where
  "parseSegment dimensions part =
     (if part = [] then dimensions
      else if VALUE_SEPARATOR \<notin> set part then dimensions
      else (let dimName = takeWhile (\<lambda>c. c \<noteq> VALUE_SEPARATOR) part;
                dimValue = tl (dropWhile (\<lambda>c. c \<noteq> VALUE_SEPARATOR) part)
            in if dimName \<noteq> [] then
                 (if dimName = ''__proto__'' then dimensions
                  else dimensions(dimName \<mapsto> dimValue))
               else dimensions))"

definition parseKey :: "string \<Rightarrow> ParsedKey option" where
  "parseKey k =
     (let parts = splitOn KEY_SEPARATOR k
      in if length parts < 2 then None
         else (let act = parts ! 0; rn = parts ! 1
               in if act = [] \<or> rn = [] then None
                  else Some \<lparr>pk_action = act, pk_ruleName = rn,
                             pk_dimensions = foldl parseSegment Map.empty (drop 2 parts)\<rparr>))"

section \<open>In-process memory store (stores/memoryStore.ts)\<close>

text \<open>
  The JavaScript \<open>Map\<close> is an association list in insertion order with distinct keys:
  \<open>Map.set\<close> on a present key replaces the value in place and on an absent key
  appends (\<open>AList.update\<close>), \<open>Map.delete\<close> removes the entry (\<open>AList.delete\<close>),
  \<open>Map.get\<close> is \<open>map_of\<close>. Every operation takes the reading of \<open>Date.now()\<close> as
  the parameter \<open>now\<close> and returns the thrown value or the result, with the new store.
\<close>

record StoreEntry =
  state :: TokenBucketState
  lastAccessedAt :: real

type_synonym EntryMap = "(string \<times> StoreEntry) list"

record MemoryStoreOptions =
  sweepIntervalMs :: real
  highWaterMark :: int
  evictionCount :: int

record MemoryStoreOptionsArg =
  opt_sweepIntervalMs :: "real option"
  opt_highWaterMark :: "int option"
  opt_evictionCount :: "int option"

record MemoryStore =
  store :: EntryMap
  options :: MemoryStoreOptions
  sweepTimer :: bool
  isShutdown :: bool

definition DEFAULT_OPTIONS :: MemoryStoreOptions where
  "DEFAULT_OPTIONS = \<lparr>sweepIntervalMs = 60000, highWaterMark = 100000, evictionCount = 10000\<rparr>"

text \<open>The constructor: the given options over the defaults, an empty map, the sweeper started.\<close>

definition newMemoryStore :: "MemoryStoreOptionsArg \<Rightarrow> MemoryStore" where
  "newMemoryStore opts =
     (let os = \<lparr>sweepIntervalMs = (case opt_sweepIntervalMs opts of
                                      None \<Rightarrow> sweepIntervalMs DEFAULT_OPTIONS | Some v \<Rightarrow> v),
                highWaterMark = (case opt_highWaterMark opts of
                                   None \<Rightarrow> highWaterMark DEFAULT_OPTIONS | Some v \<Rightarrow> v),
                evictionCount = (case opt_evictionCount opts of
                                   None \<Rightarrow> evictionCount DEFAULT_OPTIONS | Some v \<Rightarrow> v)\<rparr>
      in \<lparr>store = [], options = os, sweepTimer = (\<not> sweepIntervalMs os \<le> 0),
          isShutdown = False\<rparr>)"

definition shutdownError :: thrown where
  "shutdownError = ErrorValue ''MemoryStore has been shutdown''"

definition checkShutdown :: "MemoryStore \<Rightarrow> thrown + unit" where
  "checkShutdown m = (if isShutdown m then Inl shutdownError else Inr ())"

text \<open>The expiry test the store applies to an entry in \<open>get\<close>, \<open>has\<close>, the sweep and eviction.\<close>

definition entryExpired :: "real \<Rightarrow> StoreEntry \<Rightarrow> bool" where
  "entryExpired now entry \<longleftrightarrow> now \<ge> expiresAt (state entry)"

definition ms_get :: "string \<Rightarrow> real \<Rightarrow> MemoryStore \<Rightarrow> (thrown + TokenBucketState option) \<times> MemoryStore" where
  "ms_get k now m =
     (case checkShutdown m of
        Inl e \<Rightarrow> (Inl e, m)
      | Inr _ \<Rightarrow>
         (case map_of (store m) k of
            None \<Rightarrow> (Inr None, m)
          | Some entry \<Rightarrow>
              if now \<ge> expiresAt (state entry)
              then (Inr None, m\<lparr>store := AList.delete k (store m)\<rparr>)
              else (Inr (Some (state entry)),
                    m\<lparr>store := AList.update k (entry\<lparr>lastAccessedAt := now\<rparr>) (store m)\<rparr>)))"

text \<open>
  Phase 1 of \<open>evictEntries\<close>: the \<open>for ... of\<close> loop over the map, which stops as soon
  as the size is at the target and deletes the entry it visits when that entry is
  expired. Deleting the visited entry does not disturb the iteration, so the loop runs
  over the entries as they were at its start (first argument) and updates the map.
\<close>

fun evictExpired :: "real \<Rightarrow> int \<Rightarrow> EntryMap \<Rightarrow> EntryMap \<Rightarrow> EntryMap" where
  "evictExpired now targetSize [] s = s"
| "evictExpired now targetSize ((k, entry) # rest) s =
     (if int (length s) \<le> targetSize then s
      else if now \<ge> expiresAt (state entry)
           then evictExpired now targetSize rest (AList.delete k s)
           else evictExpired now targetSize rest s)"

text \<open>
  Phase 2: the entries sorted by \<open>lastAccessedAt\<close> (the sort of an array is stable, as
  \<open>sort_key\<close> is), and the first \<open>toEvict\<close> of them deleted.
\<close>

definition evictOldest :: "int \<Rightarrow> EntryMap \<Rightarrow> EntryMap" where
  "evictOldest targetSize s =
     (if int (length s) > targetSize then
        (let entries = sort_key (\<lambda>e. lastAccessedAt (snd e)) s;
             toEvict = int (length s) - targetSize
         in foldl (\<lambda>acc e. AList.delete (fst e) acc) s (take (nat toEvict) entries))
      else s)"

definition evictEntries :: "real \<Rightarrow> MemoryStore \<Rightarrow> MemoryStore" where
  "evictEntries now m =
     (let targetSize = highWaterMark (options m) - evictionCount (options m);
          s1 = evictExpired now targetSize (store m) (store m)
      in m\<lparr>store := evictOldest targetSize s1\<rparr>)"

definition ms_set ::
  "string \<Rightarrow> TokenBucketState \<Rightarrow> real \<Rightarrow> real \<Rightarrow> MemoryStore \<Rightarrow> (thrown + unit) \<times> MemoryStore" where
  "ms_set k st ttlMs now m =
     (case checkShutdown m of
        Inl e \<Rightarrow> (Inl e, m)
      | Inr _ \<Rightarrow>
         (case map_of (store m) k of
            Some existingEntry \<Rightarrow>
              (Inr (), m\<lparr>store := AList.update k (existingEntry\<lparr>state := st, lastAccessedAt := now\<rparr>)
                                  (store m)\<rparr>)
          | None \<Rightarrow>
              (let m1 = (if int (length (store m)) \<ge> highWaterMark (options m)
                         then evictEntries now m else m)
               in (Inr (), m1\<lparr>store := AList.update k \<lparr>state = st, lastAccessedAt = now\<rparr>
                                          (store m1)\<rparr>))))"

definition ms_delete :: "string \<Rightarrow> MemoryStore \<Rightarrow> (thrown + unit) \<times> MemoryStore" where
  "ms_delete k m =
     (case checkShutdown m of
        Inl e \<Rightarrow> (Inl e, m)
      | Inr _ \<Rightarrow> (Inr (), m\<lparr>store := AList.delete k (store m)\<rparr>))"

definition ms_has :: "string \<Rightarrow> real \<Rightarrow> MemoryStore \<Rightarrow> (thrown + bool) \<times> MemoryStore" where
  "ms_has k now m =
     (case checkShutdown m of
        Inl e \<Rightarrow> (Inl e, m)
      | Inr _ \<Rightarrow>
         (case map_of (store m) k of
            None \<Rightarrow> (Inr False, m)
          | Some entry \<Rightarrow>
              if now \<ge> expiresAt (state entry)
              then (Inr False, m\<lparr>store := AList.delete k (store m)\<rparr>)
              else (Inr True, m)))"

definition ms_size :: "MemoryStore \<Rightarrow> (thrown + nat) \<times> MemoryStore" where
  "ms_size m =
     (case checkShutdown m of
        Inl e \<Rightarrow> (Inl e, m)
      | Inr _ \<Rightarrow> (Inr (length (store m)), m))"

definition ms_clear :: "MemoryStore \<Rightarrow> (thrown + unit) \<times> MemoryStore" where
  "ms_clear m =
     (case checkShutdown m of
        Inl e \<Rightarrow> (Inl e, m)
      | Inr _ \<Rightarrow> (Inr (), m\<lparr>store := []\<rparr>))"

definition ms_shutdown :: "MemoryStore \<Rightarrow> (thrown + unit) \<times> MemoryStore" where
  "ms_shutdown m =
     (if isShutdown m then (Inr (), m)
      else (Inr (), m\<lparr>isShutdown := True, sweepTimer := False, store := []\<rparr>))"

text \<open>The sweep the timer runs: every expired entry is deleted.\<close>

definition sweep :: "real \<Rightarrow> MemoryStore \<Rightarrow> MemoryStore" where
  "sweep now m =
     (if isShutdown m then m
      else m\<lparr>store := foldl (\<lambda>acc e. if now \<ge> expiresAt (state (snd e))
                                     then AList.delete (fst e) acc else acc)
                           (store m) (store m)\<rparr>)"

text \<open>
  The calls a client can make, and a tick of the sweep timer, as one step function
  for sequences of operations; each step carries its own clock reading.
\<close>

datatype StoreOp =
    OpGet string
  | OpSet string TokenBucketState real
  | OpDelete string
  | OpHas string
  | OpSize
  | OpClear
  | OpShutdown
  | OpSweepTick

datatype StoreReply =
    GotState "TokenBucketState option"
  | HasResult bool
  | SizeResult nat
  | Done

fun runOp :: "StoreOp \<Rightarrow> real \<Rightarrow> MemoryStore \<Rightarrow> (thrown + StoreReply) \<times> MemoryStore" where
  "runOp (OpGet k) now m = map_prod (map_sum id GotState) id (ms_get k now m)"
| "runOp (OpSet k st ttlMs) now m = map_prod (map_sum id (\<lambda>_. Done)) id (ms_set k st ttlMs now m)"
| "runOp (OpDelete k) now m = map_prod (map_sum id (\<lambda>_. Done)) id (ms_delete k m)"
| "runOp (OpHas k) now m = map_prod (map_sum id HasResult) id (ms_has k now m)"
| "runOp OpSize now m = map_prod (map_sum id SizeResult) id (ms_size m)"
| "runOp OpClear now m = map_prod (map_sum id (\<lambda>_. Done)) id (ms_clear m)"
| "runOp OpShutdown now m = map_prod (map_sum id (\<lambda>_. Done)) id (ms_shutdown m)"
| "runOp OpSweepTick now m = (Inr Done, if sweepTimer m then sweep now m else m)"

fun runOps :: "(StoreOp \<times> real) list \<Rightarrow> MemoryStore \<Rightarrow> (thrown + StoreReply) list \<times> MemoryStore" where
  "runOps [] m = ([], m)"
| "runOps ((op, now) # rest) m =
     (let (r, m1) = runOp op now m; (rs, m2) = runOps rest m1 in (r # rs, m2))"

section \<open>Policy engine (core/policyEngine.ts)\<close>

text \<open>
  The engine sees the store through the interface \<open>RateLimitStore\<close>; of its methods
  the engine calls \<open>get\<close> and \<open>set\<close>. A store is a pair of functions on a store state
  of any type, each returning the thrown value or the result, with the new state.
\<close>

record 's RateLimitStore =
  store_get :: "string \<Rightarrow> 's \<Rightarrow> (thrown + TokenBucketState option) \<times> 's"
  store_set :: "string \<Rightarrow> TokenBucketState \<Rightarrow> real \<Rightarrow> 's \<Rightarrow> (thrown + unit) \<times> 's"

text \<open>The memory store behind the interface, with \<open>Date.now()\<close> reading \<open>clock\<close>.\<close>

definition memoryStoreAt :: "real \<Rightarrow> MemoryStore RateLimitStore" where
  "memoryStoreAt clock =
     \<lparr>store_get = (\<lambda>k m. ms_get k clock m),
      store_set = (\<lambda>k st ttlMs m. ms_set k st ttlMs clock m)\<rparr>"

record 's PolicyEngine =
  pe_store :: "'s RateLimitStore"
  policies :: "string \<rightharpoonup> ActionPolicy"
  keyExtractor :: KeyExtractor

text \<open>
  The steps of \<open>evaluateRule\<close> between the store's \<open>get\<close> and its \<open>set\<close>: the
  defaults of the optional rule fields, the bucket that is read or created, and the
  attempt to consume. \<open>now\<close> is the reading of the engine's time provider; the
  source reads it once per rule, the model takes one reading for the rules of a check.
\<close>

definition ruleCost :: "RateLimitRule \<Rightarrow> real" where
  "ruleCost rule = (case rule_cost rule of None \<Rightarrow> 1 | Some c \<Rightarrow> c)"

definition ruleMode :: "RateLimitRule \<Rightarrow> RuleMode" where
  "ruleMode rule = (case rule_mode rule of None \<Rightarrow> Block | Some md \<Rightarrow> md)"

definition getOrCreateBucket ::
  "rounding \<Rightarrow> TokenBucketState option \<Rightarrow> TokenBucketConfig \<Rightarrow> real \<Rightarrow> real
     \<Rightarrow> TokenBucketState" where
  "getOrCreateBucket fl got config now ttlMs =
     (case got of
        None \<Rightarrow> createBucket fl config now ttlMs
      | Some b \<Rightarrow> if isBucketExpired b now then createBucket fl config now ttlMs else b)"

definition consumeForRule ::
  "rounding \<Rightarrow> RateLimitRule \<Rightarrow> real \<Rightarrow> TokenBucketState option \<Rightarrow> ConsumeResult" where
  "consumeForRule fl rule now got =
     (let config = ruleToConfig rule;
          ttlMs = calculateDefaultTtl fl rule;
          cost = ruleCost rule;
          bucket = getOrCreateBucket fl got config now ttlMs
      in consumeTokens fl bucket config cost now ttlMs)"

definition evaluateRule ::
  "rounding \<Rightarrow> 's PolicyEngine \<Rightarrow> real \<Rightarrow> RateLimitRule \<Rightarrow> RequestContext \<Rightarrow> ActionPolicy
     \<Rightarrow> 's \<Rightarrow> (thrown + RuleResult) \<times> 's" where
  "evaluateRule fl eng now rule context policy s =
     (case buildKey (policy_id policy) rule context (keyExtractor eng) of
        None \<Rightarrow>
          (Inr \<lparr>ruleName = rule_name rule, rr_key = ''skipped'', rr_allowed = True,
                rr_outcome = ALLOWED, rr_retryAfterMs = 0,
                rr_remainingTokens = rule_capacity rule, rr_challenge = None\<rparr>, s)
      | Some k \<Rightarrow>
          (case store_get (pe_store eng) k s of
             (Inl e, s1) \<Rightarrow> (Inl e, s1)
           | (Inr got, s1) \<Rightarrow>
               (let consumeResult = consumeForRule fl rule now got
                in case store_set (pe_store eng) k (bucketState consumeResult)
                          (calculateDefaultTtl fl rule) s1 of
                     (Inl e, s2) \<Rightarrow> (Inl e, s2)
                   | (Inr _, s2) \<Rightarrow>
                       (let mode = ruleMode rule;
                            oc = (if cr_allowed consumeResult then ALLOWED
                                  else if mode = Challenge then CHALLENGE else BLOCKED);
                            ch = (if cr_allowed consumeResult then None
                                  else if mode = Challenge then Some ''captcha_required''
                                  else None)
                        in (Inr \<lparr>ruleName = rule_name rule, rr_key = k,
                                  rr_allowed = cr_allowed consumeResult, rr_outcome = oc,
                                  rr_retryAfterMs = cr_retryAfterMs consumeResult,
                                  rr_remainingTokens = cr_remainingTokens consumeResult,
                                  rr_challenge = ch\<rparr>, s2)))))"

text \<open>
  The loop of \<open>evaluatePolicy\<close>, with the results and keys collected so far; a thrown
  value leaves the loop at once.
\<close>

fun evaluateRules ::
  "rounding \<Rightarrow> 's PolicyEngine \<Rightarrow> real \<Rightarrow> ActionPolicy \<Rightarrow> RequestContext
     \<Rightarrow> RateLimitRule list \<Rightarrow> RuleResult list \<Rightarrow> (string \<rightharpoonup> string) \<Rightarrow> 's
     \<Rightarrow> (thrown + RuleResult list \<times> (string \<rightharpoonup> string)) \<times> 's" where
  "evaluateRules fl eng now policy context [] results ks s = (Inr (results, ks), s)"
| "evaluateRules fl eng now policy context (rule # rest) results ks s =
     (case evaluateRule fl eng now rule context policy s of
        (Inl e, s1) \<Rightarrow> (Inl e, s1)
      | (Inr result, s1) \<Rightarrow>
          evaluateRules fl eng now policy context rest (results @ [result])
            (if rr_key result \<noteq> ''skipped'' then ks(rule_name rule \<mapsto> rr_key result) else ks)
            s1)"

definition evaluatePolicy ::
  "rounding \<Rightarrow> 's PolicyEngine \<Rightarrow> real \<Rightarrow> ActionPolicy \<Rightarrow> RequestContext \<Rightarrow> 's
     \<Rightarrow> (thrown + RateLimitDecision) \<times> 's" where
  "evaluatePolicy fl eng now policy context s =
     (case evaluateRules fl eng now policy context (rules policy) [] Map.empty s of
        (Inl e, s1) \<Rightarrow> (Inl e, s1)
      | (Inr (results, ks), s1) \<Rightarrow> (Inr (combineRuleResults (policy_id policy) results ks), s1))"

text \<open>
  \<open>check\<close>: the \<open>try\<close>/\<open>catch\<close> turns every thrown value into an error decision, so
  the result is a decision and never a thrown value.
\<close>

definition check ::
  "rounding \<Rightarrow> 's PolicyEngine \<Rightarrow> real \<Rightarrow> RequestContext \<Rightarrow> 's
     \<Rightarrow> RateLimitDecision \<times> 's" where
  "check fl eng now context s =
     (let act = ctx_action context
      in case policies eng act of
           None \<Rightarrow> (createAllowedDecision act, s)
         | Some policy \<Rightarrow>
             (case evaluatePolicy fl eng now policy context s of
                (Inr decision, s1) \<Rightarrow> (decision, s1)
              | (Inl error, s1) \<Rightarrow>
                  (createErrorDecision act (failMode policy)
                     (ErrorValue (errorMessage error)), s1)))"

section \<open>Notions the claims speak of\<close>

text \<open>The \<open>retryAfterMs\<close> values of the BLOCKED results, in list order.\<close>

definition blockedRetries :: "RuleResult list \<Rightarrow> real list" where
  "blockedRetries rs = map rr_retryAfterMs (filter (\<lambda>r. rr_outcome r = BLOCKED) rs)"

text \<open>
  What the specification says of the results the engine produces: the retry time is
  never negative, and only a CHALLENGE result carries a challenge hint.
\<close>

definition engineResult :: "RuleResult \<Rightarrow> bool" where
  "engineResult r \<longleftrightarrow>
     0 \<le> rr_retryAfterMs r \<and> (rr_outcome r \<noteq> CHALLENGE \<longrightarrow> rr_challenge r = None)"

text \<open>The first non-empty challenge hint of any result, in list order.\<close>

fun firstHint :: "RuleResult list \<Rightarrow> string option" where
  "firstHint [] = None"
| "firstHint (r # rs) = (if truthy (rr_challenge r) then rr_challenge r else firstHint rs)"

text \<open>The first non-empty challenge hint among the CHALLENGE results, in list order.\<close>

fun firstChallengeHint :: "RuleResult list \<Rightarrow> string option" where
  "firstChallengeHint [] = None"
| "firstChallengeHint (r # rs) =
     (if rr_outcome r = CHALLENGE \<and> truthy (rr_challenge r) then rr_challenge r
      else firstChallengeHint rs)"

text \<open>
  The part of a key for one dimension, the dimension map a key embeds, and the keys
  the format can carry: action, rule name and dimension names that are not empty and
  hold no separator (values are sanitized by \<open>buildKey\<close> itself).
\<close>

definition keySegment :: "KeyExtractor \<Rightarrow> RequestContext \<Rightarrow> string \<Rightarrow> string" where
  "keySegment ex ctx d = d @ VALUE_SEPARATOR # sanitizeValue (the (ex d ctx))"

definition embeddedDimensions ::
  "RateLimitRule \<Rightarrow> RequestContext \<Rightarrow> KeyExtractor \<Rightarrow> (string \<rightharpoonup> string)" where
  "embeddedDimensions rule ctx ex =
     (\<lambda>d. if d \<in> set (rule_key rule) then map_option sanitizeValue (ex d ctx) else None)"

definition wellFormedNames :: "string \<Rightarrow> RateLimitRule \<Rightarrow> bool" where
  "wellFormedNames act rule \<longleftrightarrow>
     act \<noteq> [] \<and> KEY_SEPARATOR \<notin> set act
   \<and> rule_name rule \<noteq> [] \<and> KEY_SEPARATOR \<notin> set (rule_name rule)
   \<and> list_all (\<lambda>d. d \<noteq> [] \<and> KEY_SEPARATOR \<notin> set d \<and> VALUE_SEPARATOR \<notin> set d) (rule_key rule)"

text \<open>
  The first value a store call throws while the rules are evaluated in order, if any:
  the calls are the \<open>get\<close> and the \<open>set\<close> of every rule whose key can be built.
\<close>

fun firstStoreThrow ::
  "rounding \<Rightarrow> 's PolicyEngine \<Rightarrow> real \<Rightarrow> ActionPolicy \<Rightarrow> RequestContext
     \<Rightarrow> RateLimitRule list \<Rightarrow> 's \<Rightarrow> thrown option" where
  "firstStoreThrow fl eng now policy context [] s = None"
| "firstStoreThrow fl eng now policy context (rule # rest) s =
     (case buildKey (policy_id policy) rule context (keyExtractor eng) of
        None \<Rightarrow> firstStoreThrow fl eng now policy context rest s
      | Some k \<Rightarrow>
          (case store_get (pe_store eng) k s of
             (Inl e, s1) \<Rightarrow> Some e
           | (Inr got, s1) \<Rightarrow>
               (case store_set (pe_store eng) k (bucketState (consumeForRule fl rule now got))
                       (calculateDefaultTtl fl rule) s1 of
                  (Inl e, s2) \<Rightarrow> Some e
                | (Inr _, s2) \<Rightarrow> firstStoreThrow fl eng now policy context rest s2)))"

section \<open>Concrete inputs\<close>

text \<open>The configuration of the specification's scenarios A and B.\<close>

definition scenarioConfig :: TokenBucketConfig where
  "scenarioConfig = \<lparr>capacity = 10, refillTokens = 5, refillIntervalMs = 1000\<rparr>"

definition emptyBucket :: TokenBucketState where
  "emptyBucket = \<lparr>tokens = 0, lastRefillTime = 0, createdAt = 0, expiresAt = 20000\<rparr>"

definition halfBucket :: TokenBucketState where
  "halfBucket = \<lparr>tokens = 5, lastRefillTime = 0, createdAt = 0, expiresAt = 20000\<rparr>"

definition drainingConfig :: TokenBucketConfig where
  "drainingConfig = \<lparr>capacity = 10, refillTokens = - 1, refillIntervalMs = 1000\<rparr>"

definition centConfig :: TokenBucketConfig where
  "centConfig = \<lparr>capacity = 100, refillTokens = 100, refillIntervalMs = 100\<rparr>"

definition sampleResults :: "RuleResult list" where
  "sampleResults =
     [\<lparr>ruleName = ''a'', rr_key = ''k1'', rr_allowed = False, rr_outcome = CHALLENGE,
       rr_retryAfterMs = 70, rr_remainingTokens = 0, rr_challenge = Some ''captcha_required''\<rparr>,
      \<lparr>ruleName = ''b'', rr_key = ''k2'', rr_allowed = False, rr_outcome = BLOCKED,
       rr_retryAfterMs = 200, rr_remainingTokens = 0, rr_challenge = None\<rparr>,
      \<lparr>ruleName = ''c'', rr_key = ''k3'', rr_allowed = False, rr_outcome = BLOCKED,
       rr_retryAfterMs = 150, rr_remainingTokens = 0, rr_challenge = None\<rparr>]"

text \<open>A challenge-mode rule per IP address, its policy, two contexts and two stores.\<close>

definition challengeRule :: RateLimitRule where
  "challengeRule =
     \<lparr>rule_name = ''per_ip'', rule_key = [''ip''], rule_capacity = 3, rule_refillTokens = 3,
      rule_refillIntervalMs = 60000, rule_cost = None, rule_mode = Some Challenge,
      rule_ttlMs = None\<rparr>"

definition loginPolicy :: "FailMode \<Rightarrow> ActionPolicy" where
  "loginPolicy fm = \<lparr>policy_id = ''login'', rules = [challengeRule], failMode = fm\<rparr>"

definition ipContext :: RequestContext where
  "ipContext =
     \<lparr>ctx_ip = Some ''10.0.0.1'', ctx_emailHash = None, ctx_phoneHash = None,
      ctx_userId = None, ctx_sessionId = None, ctx_action = ''login'', ctx_route = None,
      ctx_custom = Map.empty\<rparr>"

definition anonymousContext :: RequestContext where
  "anonymousContext =
     \<lparr>ctx_ip = None, ctx_emailHash = None, ctx_phoneHash = None,
      ctx_userId = None, ctx_sessionId = None, ctx_action = ''login'', ctx_route = None,
      ctx_custom = Map.empty\<rparr>"

definition exhaustedStore :: MemoryStore where
  "exhaustedStore =
     \<lparr>store = [(''login:per_ip:ip=10.0.0.1'',
                 \<lparr>state = \<lparr>tokens = 0, lastRefillTime = 0, createdAt = 0, expiresAt = 120000\<rparr>,
                  lastAccessedAt = 0\<rparr>)],
      options = DEFAULT_OPTIONS, sweepTimer = True, isShutdown = False\<rparr>"

definition memoryEngine :: "FailMode \<Rightarrow> MemoryStore PolicyEngine" where
  "memoryEngine fm =
     \<lparr>pe_store = memoryStoreAt 0, policies = [''login'' \<mapsto> loginPolicy fm],
      keyExtractor = defaultKeyExtractor\<rparr>"

text \<open>A store that counts the calls it receives.\<close>

definition countingStore :: "nat RateLimitStore" where
  "countingStore =
     \<lparr>store_get = (\<lambda>k n. (Inr None, Suc n)),
      store_set = (\<lambda>k st ttlMs n. (Inr (), Suc n))\<rparr>"

definition countingEngine :: "FailMode \<Rightarrow> nat PolicyEngine" where
  "countingEngine fm =
     \<lparr>pe_store = countingStore, policies = [''login'' \<mapsto> loginPolicy fm],
      keyExtractor = defaultKeyExtractor\<rparr>"

definition shutStore :: MemoryStore where
  "shutStore = snd (ms_shutdown exhaustedStore)"

text \<open>The store \<open>new MemoryStore()\<close> builds.\<close>

definition defaultStore :: MemoryStore where
  "defaultStore =
     newMemoryStore \<lparr>opt_sweepIntervalMs = None, opt_highWaterMark = None,
                     opt_evictionCount = None\<rparr>"

text \<open>A context whose values hold separators, and a rule over two dimensions.\<close>

definition colonContext :: RequestContext where
  "colonContext =
     \<lparr>ctx_ip = Some ''::1'', ctx_emailHash = Some ''a=b'', ctx_phoneHash = None,
      ctx_userId = None, ctx_sessionId = None, ctx_action = ''test'', ctx_route = None,
      ctx_custom = Map.empty\<rparr>"

definition ipEmailRule :: RateLimitRule where
  "ipEmailRule =
     \<lparr>rule_name = ''per_ip_email'', rule_key = [''ip'', ''emailHash''], rule_capacity = 10,
      rule_refillTokens = 5, rule_refillIntervalMs = 1000, rule_cost = None,
      rule_mode = None, rule_ttlMs = None\<rparr>"

text \<open>
  A rule over the one dimension \<open>__proto__\<close> and an extractor
  \<open>{ extract: () => 'x' }\<close> that gives every dimension the value \<open>x\<close>.
\<close>

definition protoRule :: RateLimitRule where
  "protoRule =
     \<lparr>rule_name = ''per_tag'', rule_key = [''__proto__''], rule_capacity = 10,
      rule_refillTokens = 5, rule_refillIntervalMs = 1000, rule_cost = None,
      rule_mode = None, rule_ttlMs = None\<rparr>"

definition tagExtractor :: KeyExtractor where
  "tagExtractor dimension context = Some ''x''"

text \<open>
  A store at its high water mark of 4 with one expired entry (at time 100), and the
  store \<open>new MemoryStore({ highWaterMark: 1, evictionCount: 2 })\<close> after one \<open>set\<close>.
\<close>

definition liveState :: "real \<Rightarrow> TokenBucketState" where
  "liveState e = \<lparr>tokens = 10, lastRefillTime = 0, createdAt = 0, expiresAt = e\<rparr>"

definition fullStore :: MemoryStore where
  "fullStore =
     \<lparr>store = [(''a'', \<lparr>state = liveState 500, lastAccessedAt = 30\<rparr>),
               (''b'', \<lparr>state = liveState 50, lastAccessedAt = 10\<rparr>),
               (''c'', \<lparr>state = liveState 500, lastAccessedAt = 20\<rparr>),
               (''d'', \<lparr>state = liveState 500, lastAccessedAt = 40\<rparr>)],
      options = \<lparr>sweepIntervalMs = 60000, highWaterMark = 4, evictionCount = 2\<rparr>,
      sweepTimer = True, isShutdown = False\<rparr>"

definition tinyStore :: MemoryStore where
  "tinyStore =
     snd (ms_set ''a'' (liveState 500) 500 0
            (newMemoryStore \<lparr>opt_sweepIntervalMs = None, opt_highWaterMark = Some 1,
                             opt_evictionCount = Some 2\<rparr>))"

section \<open>Rounding to the nearest double\<close>

lemma roundHalfEven_int: "roundHalfEven (of_int k) = k"
  by (simp add: roundHalfEven_def)

text \<open>The rounding of a number whose binary exponent is known.\<close>

lemma roundDouble_at:
  assumes "x \<noteq> 0" and "2 powr of_int e \<le> \<bar>x\<bar>" and "\<bar>x\<bar> < 2 powr (of_int e + 1)"
    and "- 1022 \<le> e"
  shows "roundDouble x
           = of_int (roundHalfEven (x / 2 powr (of_int e - 52))) * 2 powr (of_int e - 52)"
proof -
  have "\<lfloor>log 2 \<bar>x\<bar>\<rfloor> = e"
    using assms(1-3) by (simp add: floor_log_eq_powr_iff)
  then show ?thesis using assms(1,4) by (simp add: roundDouble_def Let_def max_def)
qed

text \<open>Every integer below \<open>2 ^ 53\<close> in absolute value is a double.\<close>

lemma roundDouble_int:
  assumes "x \<in> \<int>" and "\<bar>x\<bar> < 2 ^ 53"
  shows "roundDouble x = x"
proof (cases "x = 0")
  case True
  then show ?thesis by (simp add: roundDouble_def)
next
  case False
  obtain k where k: "x = of_int k" using assms(1) by (auto elim: Ints_cases)
  have k0: "k \<noteq> 0" using False k by simp
  then have ge1: "1 \<le> \<bar>x\<bar>" using k by (simp flip: of_int_abs)
  define e where "e = \<lfloor>log 2 \<bar>x\<bar>\<rfloor>"
  have "0 \<le> log 2 \<bar>x\<bar>" using ge1 by simp
  then have e0: "0 \<le> e" by (simp add: e_def)
  have "log 2 \<bar>x\<bar> < 53"
    using ge1 assms(2) by (simp add: log_less_iff)
  then have e52: "e \<le> 52" by (simp add: e_def floor_le_iff)
  define n where "n = nat (52 - e)"
  have q: "(2::real) powr (of_int e - 52) = 1 / 2 ^ n"
  proof -
    have "(2::real) powr (of_int e - 52) = 2 powr of_int (e - 52)" by simp
    also have "\<dots> = 2 powr (- of_int (int n))" using e52 by (simp add: n_def)
    also have "\<dots> = 1 / 2 ^ n" by (simp add: powr_minus powr_realpow inverse_eq_divide)
    finally show ?thesis .
  qed
  have "x / (1 / 2 ^ n) = of_int (k * 2 ^ n)" by (simp add: k)
  then have r: "roundHalfEven (x / (1 / 2 ^ n)) = k * 2 ^ n"
    by (simp only: roundHalfEven_int)
  have "roundDouble x = of_int (roundHalfEven (x / (1 / 2 ^ n))) * (1 / 2 ^ n)"
    using False e0 q by (simp add: roundDouble_def Let_def max_def flip: e_def)
  also have "\<dots> = x" by (simp only: r) (simp add: k)
  finally show ?thesis .
qed

text \<open>
  Two roundings that are not exact: \<open>7 / 100\<close> is rounded up, and the product of the
  rounded quotient with 100 is the double next above 7.
\<close>

lemma roundDouble_7_100:
  "roundDouble (7 / 100) = 5044031582654956 / 72057594037927936"
  using roundDouble_at [of "7 / 100" "- 4"]
  by (simp add: roundHalfEven_def powr_neg_numeral Let_def)

lemma roundDouble_7_100_100:
  "roundDouble (31525197391593475 / 4503599627370496) = 7881299347898369 / 1125899906842624"
  using roundDouble_at [of "31525197391593475 / 4503599627370496" 2]
  by (simp add: roundHalfEven_def powr_neg_numeral Let_def)

text \<open>Two more: \<open>1 / 5\<close> is rounded up, and its product with 1000 is rounded to 200.\<close>

lemma roundDouble_1_5:
  "roundDouble (1 / 5) = 3602879701896397 / 18014398509481984"
  using roundDouble_at [of "1 / 5" "- 3"]
  by (simp add: roundHalfEven_def powr_neg_numeral Let_def)

lemma roundDouble_1_5_1000:
  "roundDouble (450359962737049625 / 2251799813685248) = 200"
  using roundDouble_at [of "450359962737049625 / 2251799813685248" 7]
  by (simp add: roundHalfEven_def powr_neg_numeral Let_def)

lemma exact_rounds: "mono exact \<and> exact 0 = 0 \<and> exact x = x"
  by (simp add: exact_def mono_def)

text \<open>
  More roundings that are not exact: \<open>1 - 0.1\<close>, where 0.1 is the double
  \<open>3602879701896397 / 2 ^ 55\<close>, is rounded up to the double 0.9; \<open>2 ^ 53 + 1\<close> is
  rounded down to \<open>2 ^ 53\<close>; \<open>1 / 49\<close> is rounded down, and the product of the
  rounded quotient with 49 is the double next below 1, which is its own rounding.
\<close>

lemma roundDouble_1_minus_tenth:
  "roundDouble (32425917317067571 / 36028797018963968)
     = 8106479329266893 / 9007199254740992"
  using roundDouble_at [of "32425917317067571 / 36028797018963968" "- 1"]
  by (simp add: roundHalfEven_def powr_neg_numeral Let_def)

lemma roundDouble_2_53_1:
  "roundDouble 9007199254740993 = 9007199254740992"
  using roundDouble_at [of 9007199254740993 53]
  by (simp add: roundHalfEven_def powr_neg_numeral Let_def)

lemma roundDouble_1_49:
  "roundDouble (1 / 49) = 5882252574524729 / 288230376151711744"
  using roundDouble_at [of "1 / 49" "- 6"]
  by (simp add: roundHalfEven_def powr_neg_numeral Let_def)

lemma roundDouble_1_49_49:
  "roundDouble (288230376151711721 / 288230376151711744)
     = 9007199254740991 / 9007199254740992"
  using roundDouble_at [of "288230376151711721 / 288230376151711744" "- 1"]
  by (simp add: roundHalfEven_def powr_neg_numeral Let_def)

lemma roundDouble_below_1:
  "roundDouble (9007199254740991 / 9007199254740992)
     = 9007199254740991 / 9007199254740992"
  using roundDouble_at [of "9007199254740991 / 9007199254740992" "- 1"]
  by (simp add: roundHalfEven_def powr_neg_numeral Let_def)

text \<open>
  Rounding to the nearest double is monotone, keeps 0 and commutes with negation: a
  positive number with binary exponent \<open>e\<close> is rounded into the interval from
  \<open>2 ^ e\<close> to \<open>2 ^ (e + 1)\<close>, and within one exponent the rounding of the
  scaled number to an integer is monotone.
\<close>

lemma roundHalfEven_mono:
  assumes "a \<le> b"
  shows "roundHalfEven a \<le> roundHalfEven b"
proof -
  have lo: "\<lfloor>y\<rfloor> \<le> roundHalfEven y" for y by (simp add: roundHalfEven_def Let_def)
  have hi: "roundHalfEven y \<le> \<lfloor>y\<rfloor> + 1" for y by (simp add: roundHalfEven_def Let_def)
  have fl: "\<lfloor>a\<rfloor> \<le> \<lfloor>b\<rfloor>" using assms by (rule floor_mono)
  show ?thesis
  proof (cases "\<lfloor>a\<rfloor> = \<lfloor>b\<rfloor>")
    case True
    then have "a - of_int \<lfloor>a\<rfloor> \<le> b - of_int \<lfloor>b\<rfloor>" using assms by simp
    then show ?thesis using True by (auto simp: roundHalfEven_def Let_def)
  next
    case False
    then have "\<lfloor>a\<rfloor> + 1 \<le> \<lfloor>b\<rfloor>" using fl by simp
    then show ?thesis using hi [of a] lo [of b] by linarith
  qed
qed

lemma roundHalfEven_uminus: "roundHalfEven (- y) = - roundHalfEven y"
proof (cases "y = of_int \<lfloor>y\<rfloor>")
  case True
  then have "- y = of_int (- \<lfloor>y\<rfloor>)" by simp
  then have "roundHalfEven (- y) = - \<lfloor>y\<rfloor>" by (simp only: roundHalfEven_int)
  moreover have "roundHalfEven y = \<lfloor>y\<rfloor>" using True roundHalfEven_int [of "\<lfloor>y\<rfloor>"] by simp
  ultimately show ?thesis by simp
next
  case False
  then have f: "\<lfloor>- y\<rfloor> = - \<lfloor>y\<rfloor> - 1"
    by (simp add: floor_minus ceiling_altdef)
  have d: "- y - of_int \<lfloor>- y\<rfloor> = 1 - (y - of_int \<lfloor>y\<rfloor>)" by (simp add: f)
  show ?thesis
    unfolding roundHalfEven_def [of "- y"] roundHalfEven_def [of y] Let_def d
    by (auto simp: f)
qed

lemma roundDouble_uminus: "roundDouble (- x) = - roundDouble x"
  by (simp add: roundDouble_def Let_def roundHalfEven_uminus)

lemma roundDouble_pos:
  assumes "0 < x"
  shows "0 \<le> roundDouble x"
    and "roundDouble x \<le> 2 powr (of_int (max \<lfloor>log 2 x\<rfloor> (- 1022)) + 1)"
    and "- 1022 \<le> \<lfloor>log 2 x\<rfloor> \<Longrightarrow> 2 powr of_int \<lfloor>log 2 x\<rfloor> \<le> roundDouble x"
proof -
  define e where "e = max \<lfloor>log 2 x\<rfloor> (- 1022)"
  define q :: real where "q = 2 powr (of_int e - 52)"
  have q0: "0 < q" by (simp add: q_def)
  have rd: "roundDouble x = of_int (roundHalfEven (x / q)) * q"
    using assms by (simp add: roundDouble_def Let_def e_def q_def)
  have "roundHalfEven (of_int 0) \<le> roundHalfEven (x / q)"
    using assms q0 by (intro roundHalfEven_mono) simp
  then have "0 \<le> roundHalfEven (x / q)" by (simp only: roundHalfEven_int)
  then show "0 \<le> roundDouble x" using q0 by (simp add: rd)
  have xl: "x = 2 powr (log 2 x)" using assms by simp
  have "log 2 x < of_int \<lfloor>log 2 x\<rfloor> + 1" by linarith
  also have "\<dots> \<le> of_int e + 1" by (simp add: e_def)
  finally have "2 powr (log 2 x) < 2 powr (of_int e + 1)" by (simp only: powr_less_cancel_iff) 
  then have xu: "x < 2 powr (of_int e + 1)" using xl by simp
  have up: "(2::real) powr (of_int e + 1) = 2 ^ 53 * q"
  proof -
    have "(2::real) powr (of_int e + 1) = 2 powr (53 + (of_int e - 52))"
      by (simp add: add.commute)
    also have "\<dots> = 2 powr 53 * q" unfolding q_def by (rule powr_add)
    finally show ?thesis by simp
  qed
  have "x / q \<le> 2 ^ 53" using xu q0 by (simp add: up pos_divide_le_eq)
  then have "x / q \<le> of_int (2 ^ 53)" by simp
  then have "roundHalfEven (x / q) \<le> roundHalfEven (of_int (2 ^ 53))"
    by (rule roundHalfEven_mono)
  then have "roundHalfEven (x / q) \<le> 2 ^ 53" by (simp only: roundHalfEven_int)
  then have "(of_int (roundHalfEven (x / q)) :: real) \<le> of_int (2 ^ 53)"
    by (simp only: of_int_le_iff)
  then have "of_int (roundHalfEven (x / q)) * q \<le> 2 ^ 53 * q" using q0 by simp
  then show "roundDouble x \<le> 2 powr (of_int (max \<lfloor>log 2 x\<rfloor> (- 1022)) + 1)"
    by (simp only: rd up flip: e_def)
  show "2 powr of_int \<lfloor>log 2 x\<rfloor> \<le> roundDouble x" if n: "- 1022 \<le> \<lfloor>log 2 x\<rfloor>"
  proof -
    have ee: "e = \<lfloor>log 2 x\<rfloor>" using n by (simp add: e_def)
    have lo: "(2::real) powr of_int e = 2 ^ 52 * q"
    proof -
      have "(2::real) powr of_int e = 2 powr (52 + (of_int e - 52))" by simp
      also have "\<dots> = 2 powr 52 * q" unfolding q_def by (rule powr_add)
      finally show ?thesis by simp
    qed
    have "of_int e \<le> log 2 x" by (simp add: ee)
    then have "2 powr of_int e \<le> 2 powr (log 2 x)" by (simp only: powr_le_cancel_iff)
    then have "2 powr of_int e \<le> x" using xl by simp
    then have "2 ^ 52 \<le> x / q" using q0 by (simp add: lo pos_le_divide_eq)
    then have "of_int (2 ^ 52) \<le> x / q" by simp
    then have "roundHalfEven (of_int (2 ^ 52)) \<le> roundHalfEven (x / q)"
      by (rule roundHalfEven_mono)
    then have "2 ^ 52 \<le> roundHalfEven (x / q)" by (simp only: roundHalfEven_int)
    then have "(of_int (2 ^ 52) :: real) \<le> of_int (roundHalfEven (x / q))"
      by (simp only: of_int_le_iff)
    then have "2 ^ 52 * q \<le> of_int (roundHalfEven (x / q)) * q" using q0 by simp
    then show ?thesis by (simp only: rd lo flip: ee)
  qed
qed

lemma roundDouble_mono_pos:
  assumes "0 < x" and "x \<le> y"
  shows "roundDouble x \<le> roundDouble y"
proof -
  have y0: "0 < y" using assms by simp
  define ex where "ex = max \<lfloor>log 2 x\<rfloor> (- 1022)"
  define ey where "ey = max \<lfloor>log 2 y\<rfloor> (- 1022)"
  have "log 2 x \<le> log 2 y" using assms by simp
  then have fl: "\<lfloor>log 2 x\<rfloor> \<le> \<lfloor>log 2 y\<rfloor>" by (rule floor_mono)
  then have le: "ex \<le> ey" by (simp add: ex_def ey_def)
  show ?thesis
  proof (cases "ex = ey")
    case True
    define q :: real where "q = 2 powr (of_int ex - 52)"
    have q0: "0 < q" by (simp add: q_def)
    have rx: "roundDouble x = of_int (roundHalfEven (x / q)) * q"
      using assms by (simp add: roundDouble_def Let_def ex_def q_def)
    have ry: "roundDouble y = of_int (roundHalfEven (y / q)) * q"
      using y0 True by (simp add: roundDouble_def Let_def ey_def q_def)
    have "x / q \<le> y / q" using assms q0 by (simp add: divide_right_mono)
    then have "roundHalfEven (x / q) \<le> roundHalfEven (y / q)" by (rule roundHalfEven_mono)
    then show ?thesis using q0 by (simp add: rx ry)
  next
    case False
    then have lt: "ex + 1 \<le> ey" using le by simp
    have n: "- 1022 \<le> \<lfloor>log 2 y\<rfloor>" and eyy: "ey = \<lfloor>log 2 y\<rfloor>"
      using lt unfolding ex_def ey_def by linarith+
    have "roundDouble x \<le> 2 powr (of_int ex + 1)"
      using roundDouble_pos(2) [OF assms(1)] by (simp add: ex_def)
    also have "\<dots> \<le> 2 powr of_int ey" using lt by simp
    also have "\<dots> \<le> roundDouble y"
      using roundDouble_pos(3) [OF y0 n] by (simp add: eyy)
    finally show ?thesis .
  qed
qed

lemma roundDouble_zero: "roundDouble 0 = 0"
  by (simp add: roundDouble_def)

lemma roundDouble_mono: "mono roundDouble"
proof (rule monoI)
  fix x y :: real
  assume le: "x \<le> y"
  have neg: "roundDouble z \<le> 0" if "z < 0" for z
  proof -
    have "0 \<le> roundDouble (- z)" using that by (intro roundDouble_pos(1)) simp
    then show ?thesis by (simp add: roundDouble_uminus)
  qed
  consider "0 < x" | "y < 0" | "x \<le> 0" "0 \<le> y" using le by linarith
  then show "roundDouble x \<le> roundDouble y"
  proof cases
    case 1
    then show ?thesis using le by (rule roundDouble_mono_pos)
  next
    case 2
    then have "0 < - y" "- y \<le> - x" using le by simp_all
    then have "roundDouble (- y) \<le> roundDouble (- x)" by (rule roundDouble_mono_pos)
    then show ?thesis by (simp add: roundDouble_uminus)
  next
    case 3
    have "roundDouble x \<le> 0"
      using 3(1) neg [of x] by (cases "x = 0") (simp_all add: roundDouble_zero)
    moreover have "0 \<le> roundDouble y"
      using 3(2) roundDouble_pos(1) [of y] by (cases "y = 0") (simp_all add: roundDouble_zero)
    ultimately show ?thesis by simp
  qed
qed

lemma roundDouble_rounds: "mono roundDouble \<and> roundDouble 0 = 0"
  using roundDouble_mono roundDouble_zero by blast

section \<open>The retry time is never negative\<close>

lemma calculateRetryAfterMs_nonneg:
  assumes "mono fl" and "fl 0 = 0"
  shows "0 \<le> calculateRetryAfterMs fl tokensNeeded config"
proof -
  have pos: "0 \<le> fl x" if "0 \<le> x" for x
    using monoD [OF assms(1) that] assms(2) by simp
  show ?thesis
  proof (cases "tokensNeeded \<le> 0 \<or> refillTokens config \<le> 0 \<or> refillIntervalMs config \<le> 0")
    case True
    then show ?thesis by (auto simp: calculateRetryAfterMs_def MAX_SAFE_INTEGER_def)
  next
    case False
    then have "0 \<le> tokensNeeded / refillTokens config" by simp
    then have "0 \<le> fl (tokensNeeded / refillTokens config) * refillIntervalMs config"
      using False pos by simp
    then have "0 \<le> fl (fl (tokensNeeded / refillTokens config) * refillIntervalMs config)"
      by (rule pos)
    then have "0 \<le> \<lceil>fl (fl (tokensNeeded / refillTokens config) * refillIntervalMs config)\<rceil>"
      by (simp add: ceiling_le_iff le_ceiling_iff)
    then show ?thesis using False by (simp add: calculateRetryAfterMs_def Let_def)
  qed
qed

lemma consumeTokens_retry_nonneg:
  assumes "mono fl" and "fl 0 = 0"
  shows "0 \<le> cr_retryAfterMs (consumeTokens fl st config cost now ttlMs)"
  using calculateRetryAfterMs_nonneg [OF assms]
  by (simp add: consumeTokens_def Let_def)

section \<open>Claims about the token bucket\<close>

text \<open>
  Claim C2, as the code has it: every subtraction, division, multiplication and
  addition is one operation of the machine, rounded by \<open>fl\<close>, and the comparison is
  exact. For every bucket state, configuration, cost, time and time-to-live, and every
  rounding: \<open>consumeTokens\<close> refills first and allows exactly when the refilled tokens
  reach the cost; on success the new token count is the rounded difference of the
  refilled count and the cost and \<open>retryAfterMs\<close> is 0; on denial the tokens stay at
  the refilled count and \<open>retryAfterMs\<close> is the ceiling of
  (cost - tokens) / refillTokens * refillIntervalMs with each operation rounded, or the
  sentinel 9007199254740991 when refillTokens or refillIntervalMs is zero or negative;
  in both cases the resulting state expires at the rounded sum now + ttlMs. On denial
  the difference cost - tokens is positive before rounding; the formula is stated
  where it is still positive after rounding, as it is for doubles, and the conjunct
  before it gives the result without that condition.
\<close>

theorem consumeTokens_spec:
  "(cr_allowed (consumeTokens fl st config cost now ttlMs)
      \<longleftrightarrow> tokens (refillBucket fl st config now) \<ge> cost)
   \<and> (tokens (refillBucket fl st config now) \<ge> cost \<longrightarrow>
        tokens (bucketState (consumeTokens fl st config cost now ttlMs))
          = fl (tokens (refillBucket fl st config now) - cost)
      \<and> cr_retryAfterMs (consumeTokens fl st config cost now ttlMs) = 0)
   \<and> (\<not> tokens (refillBucket fl st config now) \<ge> cost \<longrightarrow>
        tokens (bucketState (consumeTokens fl st config cost now ttlMs))
          = tokens (refillBucket fl st config now)
      \<and> cr_retryAfterMs (consumeTokens fl st config cost now ttlMs) =
          (if fl (cost - tokens (refillBucket fl st config now)) \<le> 0 then 0
           else if refillTokens config \<le> 0 \<or> refillIntervalMs config \<le> 0
                then 9007199254740991
           else of_int \<lceil>fl (fl (fl (cost - tokens (refillBucket fl st config now))
                                     / refillTokens config) * refillIntervalMs config)\<rceil>))
   \<and> (\<not> tokens (refillBucket fl st config now) \<ge> cost
        \<and> 0 < fl (cost - tokens (refillBucket fl st config now)) \<longrightarrow>
        cr_retryAfterMs (consumeTokens fl st config cost now ttlMs) =
          (if refillTokens config \<le> 0 \<or> refillIntervalMs config \<le> 0
           then 9007199254740991
           else of_int \<lceil>fl (fl (fl (cost - tokens (refillBucket fl st config now))
                                     / refillTokens config) * refillIntervalMs config)\<rceil>))
   \<and> expiresAt (bucketState (consumeTokens fl st config cost now ttlMs)) = fl (now + ttlMs)"
  by (simp add: consumeTokens_def calculateRetryAfterMs_def MAX_SAFE_INTEGER_def Let_def)

text \<open>
  The theorem in double arithmetic. A bucket with no tokens denies a cost of 7; with
  100 tokens per 100 ms the retry time is 8 ms, since \<open>7 / 100 * 100\<close> is rounded
  to the double above 7. With the configuration of the specification's scenarios a
  cost of 5 is allowed at time 1000 and leaves no token (scenario B), and a cost of 1
  is denied at time 0 with a retry time of 200 ms (scenario A). A configuration that
  never refills gives the sentinel.
\<close>

theorem consumeTokens_spec_witness:
  "\<not> tokens (refillBucket roundDouble emptyBucket centConfig 0) \<ge> 7
   \<and> 0 < roundDouble (7 - tokens (refillBucket roundDouble emptyBucket centConfig 0))
   \<and> cr_allowed (consumeTokens roundDouble emptyBucket centConfig 7 0 4000) = False
   \<and> cr_retryAfterMs (consumeTokens roundDouble emptyBucket centConfig 7 0 4000) = 8
   \<and> tokens (bucketState (consumeTokens roundDouble emptyBucket centConfig 7 0 4000)) = 0
   \<and> expiresAt (bucketState (consumeTokens roundDouble emptyBucket centConfig 7 0 4000)) = 4000
   \<and> cr_retryAfterMs (consumeTokens roundDouble emptyBucket scenarioConfig 1 0 4000) = 200
   \<and> cr_allowed (consumeTokens roundDouble emptyBucket scenarioConfig 5 1000 4000) = True
   \<and> tokens (bucketState (consumeTokens roundDouble emptyBucket scenarioConfig 5 1000 4000)) = 0
   \<and> cr_retryAfterMs (consumeTokens roundDouble emptyBucket
         (scenarioConfig\<lparr>refillTokens := 0\<rparr>) 1 0 4000) = 9007199254740991"
proof -
  have r0: "refillBucket roundDouble emptyBucket c 0 = emptyBucket" for c
    by (simp add: refillBucket_def emptyBucket_def roundDouble_int)
  have r1: "tokens (refillBucket roundDouble emptyBucket scenarioConfig 1000) = 5"
    by (simp add: refillBucket_def calculateRefillTokens_def emptyBucket_def scenarioConfig_def
        roundDouble_int Let_def)
  have t0: "tokens emptyBucket = 0" by (simp add: emptyBucket_def)
  have cc: "refillTokens centConfig = 100" "refillIntervalMs centConfig = 100"
    by (simp_all add: centConfig_def)
  have sc: "refillTokens scenarioConfig = 5" "refillIntervalMs scenarioConfig = 1000"
    by (simp_all add: scenarioConfig_def)
  note a = consumeTokens_spec [where fl = roundDouble and st = emptyBucket and config = centConfig
                                 and cost = 7 and now = 0 and ttlMs = 4000]
  note b = consumeTokens_spec [where fl = roundDouble and st = emptyBucket
                                 and config = scenarioConfig and cost = 1 and now = 0
                                 and ttlMs = 4000]
  note c = consumeTokens_spec [where fl = roundDouble and st = emptyBucket
                                 and config = scenarioConfig and cost = 5 and now = 1000
                                 and ttlMs = 4000]
  note d = consumeTokens_spec [where fl = roundDouble and st = emptyBucket
                                 and config = "scenarioConfig\<lparr>refillTokens := 0\<rparr>"
                                 and cost = 1 and now = 0 and ttlMs = 4000]
  have 1: "\<not> tokens (refillBucket roundDouble emptyBucket centConfig 0) \<ge> 7
           \<and> 0 < roundDouble (7 - tokens (refillBucket roundDouble emptyBucket centConfig 0))"
    by (simp add: r0 t0 roundDouble_int)
  have 2: "cr_allowed (consumeTokens roundDouble emptyBucket centConfig 7 0 4000) = False
     \<and> cr_retryAfterMs (consumeTokens roundDouble emptyBucket centConfig 7 0 4000) = 8
     \<and> tokens (bucketState (consumeTokens roundDouble emptyBucket centConfig 7 0 4000)) = 0
     \<and> expiresAt (bucketState (consumeTokens roundDouble emptyBucket centConfig 7 0 4000)) = 4000"
    using a
    by (simp add: r0 t0 cc roundDouble_int roundDouble_7_100 roundDouble_7_100_100)
  have 3: "cr_retryAfterMs (consumeTokens roundDouble emptyBucket scenarioConfig 1 0 4000) = 200"
    using b
    by (simp add: r0 t0 sc roundDouble_int roundDouble_1_5 roundDouble_1_5_1000)
  have 4: "cr_allowed (consumeTokens roundDouble emptyBucket scenarioConfig 5 1000 4000) = True
     \<and> tokens (bucketState (consumeTokens roundDouble emptyBucket scenarioConfig 5 1000 4000)) = 0"
    using c by (simp add: r1 roundDouble_int)
  have 5: "cr_retryAfterMs (consumeTokens roundDouble emptyBucket
         (scenarioConfig\<lparr>refillTokens := 0\<rparr>) 1 0 4000) = 9007199254740991"
    using d by (simp add: r0 t0 roundDouble_int)
  from 1 2 3 4 5 show ?thesis by blast
qed

text \<open>
  The claim as written, with exact arithmetic, fails in the double arithmetic of the
  code. With no tokens, a cost of 7 and 100 tokens per 100 ms the retry time is 8 ms,
  and the ceiling of the exact \<open>(7 - 0) / 100 * 100\<close> is 7. With one token and a cost
  of 0.1, the double \<open>3602879701896397 / 2 ^ 55\<close>, the attempt is allowed and the new
  token count is the double 0.9, which is above the exact difference. At time
  \<open>2 ^ 53\<close> with a time-to-live of 1 ms the state expires at \<open>2 ^ 53\<close>.
\<close>

theorem consumeTokens_exact_counterexample:
  "\<not> tokens (refillBucket roundDouble emptyBucket centConfig 0) \<ge> 7
   \<and> cr_retryAfterMs (consumeTokens roundDouble emptyBucket centConfig 7 0 4000) = 8
   \<and> of_int \<lceil>(7 - tokens (refillBucket roundDouble emptyBucket centConfig 0))
                / refillTokens centConfig * refillIntervalMs centConfig\<rceil> = (7::real)
   \<and> cr_retryAfterMs (consumeTokens roundDouble emptyBucket centConfig 7 0 4000)
       \<noteq> of_int \<lceil>(7 - tokens (refillBucket roundDouble emptyBucket centConfig 0))
                  / refillTokens centConfig * refillIntervalMs centConfig\<rceil>
   \<and> tokens (refillBucket roundDouble (emptyBucket\<lparr>tokens := 1\<rparr>) scenarioConfig 0)
       \<ge> 3602879701896397 / 36028797018963968
   \<and> tokens (bucketState (consumeTokens roundDouble (emptyBucket\<lparr>tokens := 1\<rparr>) scenarioConfig
         (3602879701896397 / 36028797018963968) 0 4000))
       = 8106479329266893 / 9007199254740992
   \<and> tokens (bucketState (consumeTokens roundDouble (emptyBucket\<lparr>tokens := 1\<rparr>) scenarioConfig
         (3602879701896397 / 36028797018963968) 0 4000))
       \<noteq> tokens (refillBucket roundDouble (emptyBucket\<lparr>tokens := 1\<rparr>) scenarioConfig 0)
           - 3602879701896397 / 36028797018963968
   \<and> expiresAt (bucketState (consumeTokens roundDouble
         (emptyBucket\<lparr>lastRefillTime := 9007199254740992\<rparr>) scenarioConfig 1
         9007199254740992 1))
       = 9007199254740992
   \<and> expiresAt (bucketState (consumeTokens roundDouble
         (emptyBucket\<lparr>lastRefillTime := 9007199254740992\<rparr>) scenarioConfig 1
         9007199254740992 1))
       \<noteq> 9007199254740992 + 1"
proof -
  have r0: "refillBucket roundDouble emptyBucket centConfig 0 = emptyBucket"
    by (simp add: refillBucket_def emptyBucket_def roundDouble_int)
  have t0: "tokens emptyBucket = 0" by (simp add: emptyBucket_def)
  have cc: "refillTokens centConfig = 100" "refillIntervalMs centConfig = 100"
    by (simp_all add: centConfig_def)
  have a: "cr_retryAfterMs (consumeTokens roundDouble emptyBucket centConfig 7 0 4000) = 8"
    by (simp add: consumeTokens_def calculateRetryAfterMs_def Let_def r0 t0 cc
        roundDouble_int roundDouble_7_100 roundDouble_7_100_100)
  have b: "of_int \<lceil>(7 - tokens (refillBucket roundDouble emptyBucket centConfig 0))
                / refillTokens centConfig * refillIntervalMs centConfig\<rceil> = (7::real)"
    by (simp add: r0 t0 cc)
  have d: "\<not> tokens (refillBucket roundDouble emptyBucket centConfig 0) \<ge> 7"
    by (simp add: r0 t0)
  have r1: "refillBucket roundDouble (emptyBucket\<lparr>tokens := 1\<rparr>) scenarioConfig 0
              = emptyBucket\<lparr>tokens := 1\<rparr>"
    by (simp add: refillBucket_def emptyBucket_def roundDouble_int)
  have e: "tokens (bucketState (consumeTokens roundDouble (emptyBucket\<lparr>tokens := 1\<rparr>)
             scenarioConfig (3602879701896397 / 36028797018963968) 0 4000))
           = 8106479329266893 / 9007199254740992"
    by (simp add: consumeTokens_def Let_def r1 roundDouble_1_minus_tenth)
  have f: "tokens (refillBucket roundDouble (emptyBucket\<lparr>tokens := 1\<rparr>) scenarioConfig 0) = 1"
    by (simp add: r1)
  have r2: "refillBucket roundDouble (emptyBucket\<lparr>lastRefillTime := 9007199254740992\<rparr>)
              scenarioConfig 9007199254740992
              = emptyBucket\<lparr>lastRefillTime := 9007199254740992\<rparr>"
    by (simp add: refillBucket_def emptyBucket_def roundDouble_int)
  have g: "expiresAt (bucketState (consumeTokens roundDouble
         (emptyBucket\<lparr>lastRefillTime := 9007199254740992\<rparr>) scenarioConfig 1
         9007199254740992 1)) = 9007199254740992"
    by (simp add: consumeTokens_def Let_def r2 t0 roundDouble_2_53_1)
  show ?thesis
    unfolding a b e f g using d by simp
qed

text \<open>
  Claim C4, as the code has it, with elapsed = now - lastRefillTime in the arithmetic of
  the code. For every bucket state, configuration and time: with elapsed at or below
  0 the state is returned unchanged; with elapsed above 0 the lastRefillTime becomes
  now and the tokens become the old tokens plus (elapsed / refillIntervalMs) *
  refillTokens, capped at capacity, where nothing is added when refillIntervalMs is
  zero or negative; so the lastRefillTime changes only when elapsed is above 0. For
  every state whose tokens do not exceed the capacity, the result holds at most
  capacity tokens. For every such state whose token count is a machine number and
  every configuration whose refillTokens is not negative, the result holds no fewer
  tokens than the state, in every arithmetic whose rounding is monotone and keeps 0,
  as rounding to the nearest double does (\<open>roundDouble_rounds\<close>).
\<close>

theorem refillBucket_spec:
  "(fl (now - lastRefillTime st) \<le> 0 \<longrightarrow> refillBucket fl st config now = st)
   \<and> (0 < fl (now - lastRefillTime st) \<longrightarrow>
        lastRefillTime (refillBucket fl st config now) = now
      \<and> tokens (refillBucket fl st config now) =
          min (capacity config)
              (fl (tokens st
                   + (if 0 < refillIntervalMs config
                      then fl (fl (fl (now - lastRefillTime st) / refillIntervalMs config)
                               * refillTokens config)
                      else 0))))
   \<and> (lastRefillTime (refillBucket fl st config now) \<noteq> lastRefillTime st \<longrightarrow>
        0 < fl (now - lastRefillTime st))
   \<and> (tokens st \<le> capacity config \<longrightarrow>
        tokens (refillBucket fl st config now) \<le> capacity config)
   \<and> (tokens st \<le> capacity config \<and> 0 \<le> refillTokens config
        \<and> mono fl \<and> fl 0 = 0 \<and> fl (tokens st) = tokens st \<longrightarrow>
        tokens st \<le> tokens (refillBucket fl st config now))"
proof -
  let ?el = "fl (now - lastRefillTime st)"
  have c1: "?el \<le> 0 \<longrightarrow> refillBucket fl st config now = st"
    by (simp add: refillBucket_def)
  have c2: "0 < ?el \<longrightarrow>
        lastRefillTime (refillBucket fl st config now) = now
      \<and> tokens (refillBucket fl st config now) =
          min (capacity config)
              (fl (tokens st
                   + (if 0 < refillIntervalMs config
                      then fl (fl (?el / refillIntervalMs config) * refillTokens config)
                      else 0)))"
    by (simp add: refillBucket_def calculateRefillTokens_def Let_def not_less)
  have c3: "lastRefillTime (refillBucket fl st config now) \<noteq> lastRefillTime st \<longrightarrow> 0 < ?el"
    using c1 by (cases "?el \<le> 0") auto
  have c4: "tokens st \<le> capacity config \<longrightarrow>
        tokens (refillBucket fl st config now) \<le> capacity config"
    by (simp add: refillBucket_def Let_def)
  have c5: "tokens st \<le> tokens (refillBucket fl st config now)"
    if cap: "tokens st \<le> capacity config" and rt: "0 \<le> refillTokens config"
      and m: "mono fl" and z: "fl 0 = 0" and rep: "fl (tokens st) = tokens st"
  proof (cases "?el \<le> 0")
    case True
    then show ?thesis by (simp add: refillBucket_def)
  next
    case False
    have pos: "0 \<le> fl x" if "0 \<le> x" for x
      using monoD [OF m that] z by simp
    have add: "0 \<le> calculateRefillTokens fl ?el config"
    proof (cases "refillIntervalMs config \<le> 0")
      case True
      then show ?thesis by (simp add: calculateRefillTokens_def)
    next
      case ri: False
      have "0 \<le> ?el / refillIntervalMs config" using False ri by simp
      then have "0 \<le> fl (?el / refillIntervalMs config) * refillTokens config"
        using rt pos by simp
      then show ?thesis using False ri pos by (simp add: calculateRefillTokens_def Let_def)
    qed
    have "tokens st = fl (tokens st)" using rep by simp
    also have "\<dots> \<le> fl (tokens st + calculateRefillTokens fl ?el config)"
      using add by (intro monoD [OF m]) simp
    finally have "tokens st \<le> fl (tokens st + calculateRefillTokens fl ?el config)" .
    then show ?thesis using False cap by (simp add: refillBucket_def Let_def)
  qed
  from c1 c2 c3 c4 c5 show ?thesis by blast
qed

text \<open>
  The theorem at a bucket of 5 tokens and 5 tokens per second: in double arithmetic,
  half a second later 2.5 tokens are added, three seconds later the bucket is full at
  10 tokens, and at the time of its last refill nothing changes; the bucket never
  holds fewer tokens than before.
\<close>

theorem refillBucket_spec_witness:
  "roundDouble (0 - lastRefillTime halfBucket) \<le> 0
   \<and> refillBucket roundDouble halfBucket scenarioConfig 0 = halfBucket
   \<and> 0 < roundDouble (500 - lastRefillTime halfBucket)
   \<and> lastRefillTime (refillBucket roundDouble halfBucket scenarioConfig 500) = 500
   \<and> tokens (refillBucket roundDouble halfBucket scenarioConfig 500) = 15 / 2
   \<and> tokens halfBucket \<le> capacity scenarioConfig
   \<and> tokens (refillBucket roundDouble halfBucket scenarioConfig 3000) = 10
   \<and> 0 \<le> refillTokens scenarioConfig \<and> mono roundDouble \<and> roundDouble 0 = 0
   \<and> roundDouble (tokens halfBucket) = tokens halfBucket
   \<and> tokens halfBucket \<le> tokens (refillBucket roundDouble halfBucket scenarioConfig 500)"
proof -
  have l: "lastRefillTime halfBucket = 0" and t: "tokens halfBucket = 5"
    by (simp_all add: halfBucket_def)
  have sc: "refillTokens scenarioConfig = 5" "refillIntervalMs scenarioConfig = 1000"
    "capacity scenarioConfig = 10"
    by (simp_all add: scenarioConfig_def)
  have half: "roundDouble (1 / 2) = 1 / 2"
    using roundDouble_at [of "1 / 2" "- 1"]
    by (simp add: roundHalfEven_def powr_neg_numeral Let_def)
  have r52: "roundDouble (5 / 2) = 5 / 2"
    using roundDouble_at [of "5 / 2" 1]
    by (simp add: roundHalfEven_def powr_neg_numeral Let_def)
  have r152: "roundDouble (15 / 2) = 15 / 2"
    using roundDouble_at [of "15 / 2" 2]
    by (simp add: roundHalfEven_def powr_neg_numeral Let_def)
  note a = refillBucket_spec [where fl = roundDouble and st = halfBucket
                                and config = scenarioConfig and now = 0]
  note b = refillBucket_spec [where fl = roundDouble and st = halfBucket
                                and config = scenarioConfig and now = 500]
  note c = refillBucket_spec [where fl = roundDouble and st = halfBucket
                                and config = scenarioConfig and now = 3000]
  have 1: "roundDouble (0 - lastRefillTime halfBucket) \<le> 0
           \<and> 0 < roundDouble (500 - lastRefillTime halfBucket)"
    by (simp add: l roundDouble_int)
  have 2: "refillBucket roundDouble halfBucket scenarioConfig 0 = halfBucket"
    using a 1 by blast
  have 3: "lastRefillTime (refillBucket roundDouble halfBucket scenarioConfig 500) = 500
     \<and> tokens (refillBucket roundDouble halfBucket scenarioConfig 500) = 15 / 2"
    using b by (simp add: l t sc roundDouble_int half r52 r152)
  have 4: "tokens halfBucket \<le> capacity scenarioConfig \<and> 0 \<le> refillTokens scenarioConfig"
    by (simp add: t sc)
  have 5: "tokens (refillBucket roundDouble halfBucket scenarioConfig 3000) = 10"
    using c by (simp add: l t sc roundDouble_int)
  have 6: "mono roundDouble \<and> roundDouble 0 = 0
           \<and> roundDouble (tokens halfBucket) = tokens halfBucket"
    using roundDouble_rounds by (simp add: t roundDouble_int)
  have 7: "tokens halfBucket \<le> tokens (refillBucket roundDouble halfBucket scenarioConfig 500)"
    using b 4 6 by blast
  from 1 2 3 4 5 6 7 show ?thesis by blast
qed

text \<open>
  The claim as written fails in three ways, all in double arithmetic. For a
  configuration with a negative refillTokens, one interval after its last refill a
  bucket of 5 tokens holds 4. A bucket of 20 tokens with a capacity of 10 still holds
  20 tokens at the time of its last refill, and 10 tokens three seconds later. With 49
  tokens per 49 ms, an empty bucket holds \<open>1 - 2 ^ -53\<close> tokens after 1 ms, where the
  exact \<open>(1 / 49) * 49\<close> is 1.
\<close>

theorem refillBucket_decrease_counterexample:
  "tokens (refillBucket roundDouble halfBucket drainingConfig 1000) < tokens halfBucket
   \<and> tokens (refillBucket roundDouble halfBucket drainingConfig 1000) = 4
   \<and> tokens halfBucket = 5
   \<and> tokens (refillBucket roundDouble (halfBucket\<lparr>tokens := 20\<rparr>) scenarioConfig 0)
       > capacity scenarioConfig
   \<and> tokens (refillBucket roundDouble (halfBucket\<lparr>tokens := 20\<rparr>) scenarioConfig 3000)
       < tokens (halfBucket\<lparr>tokens := 20\<rparr>)
   \<and> tokens (refillBucket roundDouble emptyBucket
         \<lparr>capacity = 49, refillTokens = 49, refillIntervalMs = 49\<rparr> 1)
       = 9007199254740991 / 9007199254740992
   \<and> tokens (refillBucket roundDouble emptyBucket
         \<lparr>capacity = 49, refillTokens = 49, refillIntervalMs = 49\<rparr> 1)
       \<noteq> min 49 (tokens emptyBucket + (1 - lastRefillTime emptyBucket) / 49 * 49)"
proof -
  have a: "tokens (refillBucket roundDouble halfBucket drainingConfig 1000) = 4
           \<and> tokens halfBucket = 5"
    by (simp add: refillBucket_def calculateRefillTokens_def halfBucket_def drainingConfig_def
        roundDouble_int Let_def)
  have b: "tokens (refillBucket roundDouble (halfBucket\<lparr>tokens := 20\<rparr>) scenarioConfig 0) = 20
           \<and> capacity scenarioConfig = 10"
    by (simp add: refillBucket_def halfBucket_def scenarioConfig_def roundDouble_int)
  have c: "tokens (refillBucket roundDouble (halfBucket\<lparr>tokens := 20\<rparr>) scenarioConfig 3000) = 10
           \<and> tokens (halfBucket\<lparr>tokens := 20\<rparr>) = 20"
    by (simp add: refillBucket_def calculateRefillTokens_def halfBucket_def scenarioConfig_def
        roundDouble_int Let_def)
  have d: "tokens (refillBucket roundDouble emptyBucket
             \<lparr>capacity = 49, refillTokens = 49, refillIntervalMs = 49\<rparr> 1)
           = 9007199254740991 / 9007199254740992"
    by (simp add: refillBucket_def calculateRefillTokens_def emptyBucket_def roundDouble_int
        roundDouble_1_49 roundDouble_1_49_49 roundDouble_below_1 Let_def)
  have e: "min 49 (tokens emptyBucket + (1 - lastRefillTime emptyBucket) / 49 * 49) = (1::real)"
    by (simp add: emptyBucket_def)
  show ?thesis
    unfolding d e using a b c by simp
qed

section \<open>Steps of the policy engine\<close>

lemma buildParts_None_iff:
  "buildParts ex ctx parts ds = None
     \<longleftrightarrow> (\<exists>d\<in>set ds. ex d ctx = None \<or> ex d ctx = Some [])"
  by (induction ds arbitrary: parts) (auto split: option.splits)

lemma buildKey_None_iff:
  "buildKey act rule ctx ex = None
     \<longleftrightarrow> (\<exists>d\<in>set (rule_key rule). ex d ctx = None \<or> ex d ctx = Some [])"
proof -
  have "buildKey act rule ctx ex = None
          \<longleftrightarrow> buildParts ex ctx [act, rule_name rule] (rule_key rule) = None"
    by (simp add: buildKey_def split: option.splits)
  then show ?thesis by (simp only: buildParts_None_iff)
qed

lemma evaluateRules_throw:
  "firstStoreThrow fl eng now policy context rs s = Some e
     \<Longrightarrow> fst (evaluateRules fl eng now policy context rs results ks s) = Inl e"
proof (induction rs arbitrary: s results ks)
  case Nil
  then show ?case by simp
next
  case (Cons rule rest)
  show ?case
  proof (cases "buildKey (policy_id policy) rule context (keyExtractor eng)")
    case None
    with Cons show ?thesis by (simp add: evaluateRule_def)
  next
    case (Some k)
    obtain g s1 where get: "store_get (pe_store eng) k s = (g, s1)" by (cases "store_get (pe_store eng) k s")
    show ?thesis
    proof (cases g)
      case (Inl e')
      with Cons.prems Some get show ?thesis by (simp add: evaluateRule_def)
    next
      case (Inr got)
      obtain p s2 where put: "store_set (pe_store eng) k (bucketState (consumeForRule fl rule now got))
                       (calculateDefaultTtl fl rule) s1 = (p, s2)"
        by (cases "store_set (pe_store eng) k (bucketState (consumeForRule fl rule now got))
                       (calculateDefaultTtl fl rule) s1")
      show ?thesis
      proof (cases p)
        case (Inl e')
        with Cons.prems Some get Inr put show ?thesis by (simp add: evaluateRule_def Let_def)
      next
        case (Inr u)
        with Cons.prems Some get \<open>g = Inr got\<close> put
        have "firstStoreThrow fl eng now policy context rest s2 = Some e" by simp
        from Cons.IH [OF this] Some get \<open>g = Inr got\<close> put Inr
        show ?thesis by (simp add: evaluateRule_def Let_def)
      qed
    qed
  qed
qed

lemma evaluateRules_no_throw:
  "firstStoreThrow fl eng now policy context rs s = None
     \<Longrightarrow> \<exists>x. fst (evaluateRules fl eng now policy context rs results ks s) = Inr x"
proof (induction rs arbitrary: s results ks)
  case Nil
  then show ?case by simp
next
  case (Cons rule rest)
  show ?case
  proof (cases "buildKey (policy_id policy) rule context (keyExtractor eng)")
    case None
    with Cons show ?thesis by (simp add: evaluateRule_def)
  next
    case (Some k)
    obtain g s1 where get: "store_get (pe_store eng) k s = (g, s1)"
      by (cases "store_get (pe_store eng) k s")
    show ?thesis
    proof (cases g)
      case (Inl e')
      with Cons.prems Some get show ?thesis by simp
    next
      case (Inr got)
      obtain p s2 where put: "store_set (pe_store eng) k (bucketState (consumeForRule fl rule now got))
                       (calculateDefaultTtl fl rule) s1 = (p, s2)"
        by (cases "store_set (pe_store eng) k (bucketState (consumeForRule fl rule now got))
                       (calculateDefaultTtl fl rule) s1")
      show ?thesis
      proof (cases p)
        case (Inl e')
        with Cons.prems Some get Inr put show ?thesis by simp
      next
        case (Inr u)
        with Cons.prems Some get \<open>g = Inr got\<close> put
        have "firstStoreThrow fl eng now policy context rest s2 = None" by simp
        from Cons.IH [OF this] Some get \<open>g = Inr got\<close> put Inr
        show ?thesis by (simp add: evaluateRule_def Let_def)
      qed
    qed
  qed
qed

text \<open>
  The evaluation of the rules ends with a thrown value exactly when a store call
  throws, and with the value that call threw.
\<close>

lemma evaluateRules_throw_iff:
  "fst (evaluateRules fl eng now policy context rs results ks s) = Inl e
     \<longleftrightarrow> firstStoreThrow fl eng now policy context rs s = Some e"
proof
  assume l: "fst (evaluateRules fl eng now policy context rs results ks s) = Inl e"
  show "firstStoreThrow fl eng now policy context rs s = Some e"
  proof (cases "firstStoreThrow fl eng now policy context rs s")
    case None
    from evaluateRules_no_throw [OF this, of results ks] l show ?thesis by auto
  next
    case (Some e')
    from evaluateRules_throw [OF this, of results ks] l show ?thesis using Some by simp
  qed
next
  assume "firstStoreThrow fl eng now policy context rs s = Some e"
  then show "fst (evaluateRules fl eng now policy context rs results ks s) = Inl e"
    by (rule evaluateRules_throw)
qed

lemma createErrorDecision_fields:
  "failedDueToError (createErrorDecision act fm err) = Some True
   \<and> (fm = Open \<longrightarrow> allowed (createErrorDecision act fm err)
                   \<and> outcome (createErrorDecision act fm err) = ALLOWED
                   \<and> retryAfterMs (createErrorDecision act fm err) = 0)
   \<and> (fm = Closed \<longrightarrow> \<not> allowed (createErrorDecision act fm err)
                   \<and> outcome (createErrorDecision act fm err) = BLOCKED
                   \<and> retryAfterMs (createErrorDecision act fm err) = 60000)"
  by (simp add: createErrorDecision_def Let_def)

text \<open>The sample rule at the sample store, in double arithmetic.\<close>

lemma roundDouble_1_3:
  "roundDouble (1 / 3) = 6004799503160661 / 18014398509481984"
  using roundDouble_at [of "1 / 3" "- 2"]
  by (simp add: roundHalfEven_def powr_neg_numeral Let_def)

lemma roundDouble_1_3_60000:
  "roundDouble (11258999068426239375 / 562949953421312) = 20000"
  using roundDouble_at [of "11258999068426239375 / 562949953421312" 14]
  by (simp add: roundHalfEven_def powr_neg_numeral Let_def)

lemma ipKey:
  "buildKey ''login'' challengeRule ipContext defaultKeyExtractor
     = Some ''login:per_ip:ip=10.0.0.1''"
  by (simp add: buildKey_def challengeRule_def ipContext_def defaultKeyExtractor_def
      sanitizeValue_def)

lemma exhausted_get:
  "ms_get ''login:per_ip:ip=10.0.0.1'' 0 exhaustedStore
     = (Inr (Some \<lparr>tokens = 0, lastRefillTime = 0, createdAt = 0, expiresAt = 120000\<rparr>),
        exhaustedStore)"
  by (simp add: ms_get_def exhaustedStore_def checkShutdown_def)

lemma exhausted_consume:
  "consumeForRule roundDouble challengeRule 0
      (Some \<lparr>tokens = 0, lastRefillTime = 0, createdAt = 0, expiresAt = 120000\<rparr>)
     = \<lparr>cr_allowed = False, cr_remainingTokens = 0, cr_retryAfterMs = 20000,
        bucketState = \<lparr>tokens = 0, lastRefillTime = 0, createdAt = 0, expiresAt = 120000\<rparr>\<rparr>"
  by (simp add: consumeForRule_def challengeRule_def ruleToConfig_def calculateDefaultTtl_def
      ruleCost_def getOrCreateBucket_def isBucketExpired_def consumeTokens_def
      refillBucket_def calculateRetryAfterMs_def Let_def roundDouble_int roundDouble_1_3
      roundDouble_1_3_60000)

lemma exhausted_set:
  "ms_set ''login:per_ip:ip=10.0.0.1''
      \<lparr>tokens = 0, lastRefillTime = 0, createdAt = 0, expiresAt = 120000\<rparr> t 0 exhaustedStore
     = (Inr (), exhaustedStore)"
  by (simp add: ms_set_def exhaustedStore_def checkShutdown_def)

lemma shut_get:
  "ms_get k 0 shutStore = (Inl shutdownError, shutStore)"
  by (simp add: ms_get_def shutStore_def ms_shutdown_def exhaustedStore_def checkShutdown_def)

text \<open>
  Every result of \<open>evaluateRule\<close>, and so every result in the list that
  \<open>evaluatePolicy\<close> hands to \<open>combineRuleResults\<close>, has a retry time that is not
  negative and carries a hint only with the outcome CHALLENGE, in every arithmetic
  whose rounding is monotone and keeps 0.
\<close>

lemma evaluateRule_engineResult:
  assumes "mono fl" and "fl 0 = 0"
    and "evaluateRule fl eng now rule context policy s = (Inr r, s')"
  shows "engineResult r"
proof (cases "buildKey (policy_id policy) rule context (keyExtractor eng)")
  case None
  with assms(3) show ?thesis by (auto simp: evaluateRule_def engineResult_def)
next
  case (Some k)
  obtain g s1 where get: "store_get (pe_store eng) k s = (g, s1)"
    by (cases "store_get (pe_store eng) k s")
  show ?thesis
  proof (cases g)
    case (Inl e)
    with assms(3) Some get show ?thesis by (simp add: evaluateRule_def)
  next
    case (Inr got)
    obtain p s2 where put: "store_set (pe_store eng) k (bucketState (consumeForRule fl rule now got))
                       (calculateDefaultTtl fl rule) s1 = (p, s2)"
      by (cases "store_set (pe_store eng) k (bucketState (consumeForRule fl rule now got))
                       (calculateDefaultTtl fl rule) s1")
    have nn: "0 \<le> cr_retryAfterMs (consumeForRule fl rule now got)"
      using consumeTokens_retry_nonneg [OF assms(1,2)] by (simp add: consumeForRule_def Let_def)
    show ?thesis
    proof (cases p)
      case (Inl e)
      with assms(3) Some get \<open>g = Inr got\<close> put show ?thesis
        by (simp add: evaluateRule_def Let_def)
    next
      case (Inr u)
      with assms(3) Some get \<open>g = Inr got\<close> put nn show ?thesis
        by (auto simp: evaluateRule_def Let_def engineResult_def split: if_splits)
    qed
  qed
qed

lemma evaluateRules_engineResult:
  assumes "mono fl" and "fl 0 = 0"
  shows "evaluateRules fl eng now policy context rs results ks s = (Inr (out, ks'), s')
           \<Longrightarrow> list_all engineResult results \<Longrightarrow> list_all engineResult out"
proof (induction rs arbitrary: results ks s)
  case Nil
  then show ?case by simp
next
  case (Cons rule rest)
  obtain x s1 where ev: "evaluateRule fl eng now rule context policy s = (x, s1)"
    by (cases "evaluateRule fl eng now rule context policy s")
  show ?case
  proof (cases x)
    case (Inl e)
    with Cons.prems(1) ev show ?thesis by simp
  next
    case (Inr r)
    have "engineResult r" using assms ev Inr by (auto intro: evaluateRule_engineResult)
    then have all: "list_all engineResult (results @ [r])" using Cons.prems(2) by simp
    from Cons.prems(1) ev Inr
    have "evaluateRules fl eng now policy context rest (results @ [r])
            (if rr_key r \<noteq> ''skipped'' then ks(rule_name rule \<mapsto> rr_key r) else ks) s1
          = (Inr (out, ks'), s')"
      by simp
    from Cons.IH [OF this all] show ?thesis .
  qed
qed

text \<open>The same for the engine in double arithmetic.\<close>

lemma evaluateRules_double_engineResult:
  assumes "evaluateRules roundDouble eng now policy context rs [] Map.empty s
             = (Inr (out, ks), s')"
  shows "list_all engineResult out"
  using evaluateRules_engineResult [OF roundDouble_mono roundDouble_zero assms] by simp

section \<open>The scan of combineRuleResults\<close>

lemma scan_hasBlock:
  "hasBlock (foldl scanStep acc rs) \<longleftrightarrow> hasBlock acc \<or> (\<exists>r\<in>set rs. rr_outcome r = BLOCKED)"
  by (induction rs arbitrary: acc) (auto simp: scanStep_def)

lemma scan_hasChallenge:
  "hasChallenge (foldl scanStep acc rs)
     \<longleftrightarrow> hasChallenge acc \<or> (\<exists>r\<in>set rs. rr_outcome r = CHALLENGE)"
  by (induction rs arbitrary: acc) (auto simp: scanStep_def)

lemma scan_maxRetry:
  "maxRetryAfterMs (foldl scanStep acc rs) = Max (set (maxRetryAfterMs acc # blockedRetries rs))"
proof (induction rs arbitrary: acc)
  case Nil
  then show ?case by (simp add: blockedRetries_def)
next
  case (Cons r rs)
  show ?case
  proof (cases "rr_outcome r = BLOCKED")
    case True
    have "Max (set (max (maxRetryAfterMs acc) (rr_retryAfterMs r) # blockedRetries rs))
          = Max (set (maxRetryAfterMs acc # rr_retryAfterMs r # blockedRetries rs))"
      by (cases "blockedRetries rs = []") (simp_all add: max.assoc)
    with True Cons show ?thesis
      by (simp add: scanStep_def blockedRetries_def)
  next
    case False
    with Cons show ?thesis
      by (simp add: scanStep_def blockedRetries_def)
  qed
qed

lemma scan_hint:
  "(if truthy (challengeHint (foldl scanStep acc rs))
    then challengeHint (foldl scanStep acc rs) else None)
   = (if truthy (challengeHint acc) then challengeHint acc else firstChallengeHint rs)"
proof (induction rs arbitrary: acc)
  case Nil
  show ?case by simp
next
  case (Cons r rs)
  have "(if truthy (challengeHint (foldl scanStep acc (r # rs)))
         then challengeHint (foldl scanStep acc (r # rs)) else None)
        = (if truthy (challengeHint (scanStep acc r)) then challengeHint (scanStep acc r)
           else firstChallengeHint rs)"
    by (simp only: foldl_Cons Cons.IH)
  also have "\<dots> = (if truthy (challengeHint acc) then challengeHint acc
                    else firstChallengeHint (r # rs))"
    by (simp add: scanStep_def)
  finally show ?case .
qed

lemma Max_blocked_nonneg:
  assumes "r \<in> set rs" "rr_outcome r = BLOCKED" "0 \<le> rr_retryAfterMs r"
  shows "Max (set (0 # blockedRetries rs)) = Max (set (blockedRetries rs))"
proof -
  have mem: "rr_retryAfterMs r \<in> set (blockedRetries rs)"
    using assms by (auto simp: blockedRetries_def)
  then have "0 \<le> Max (set (blockedRetries rs))"
    using assms(3) by (meson List.finite_set Max_ge order_trans)
  moreover have "set (blockedRetries rs) \<noteq> {}" using mem by auto
  ultimately show ?thesis by (simp add: max_def)
qed

lemma combine_challenge_only:
  assumes "r \<in> set rs" and "rr_outcome r = CHALLENGE"
    and "\<forall>x\<in>set rs. rr_outcome x \<noteq> BLOCKED"
  shows "allowed (combineRuleResults act rs ks)
       \<and> outcome (combineRuleResults act rs ks) = CHALLENGE
       \<and> retryAfterMs (combineRuleResults act rs ks) = 0
       \<and> r \<in> set (ruleResults (combineRuleResults act rs ks))"
proof -
  have ne: "rs \<noteq> []" using assms(1) by auto
  have be: "blockedRetries rs = []"
    using assms(3) by (induction rs) (auto simp: blockedRetries_def)
  have nb: "\<not> hasBlock (foldl scanStep scanStart rs)"
    using assms(3) by (simp add: scan_hasBlock scanStart_def)
  have hc: "hasChallenge (foldl scanStep scanStart rs)"
    using assms(1,2) by (auto simp: scan_hasChallenge)
  have mr: "maxRetryAfterMs (foldl scanStep scanStart rs) = 0"
    by (simp add: scan_maxRetry be scanStart_def)
  show ?thesis
    using ne nb hc mr assms(1) by (simp add: combineRuleResults_def Let_def)
qed

lemma firstHint_challenge:
  "\<forall>r\<in>set rs. rr_outcome r \<noteq> CHALLENGE \<longrightarrow> \<not> truthy (rr_challenge r)
     \<Longrightarrow> firstChallengeHint rs = firstHint rs"
  by (induction rs) auto

lemma engineResult_no_hint:
  "list_all engineResult rs
     \<Longrightarrow> \<forall>r\<in>set rs. 0 \<le> rr_retryAfterMs r
                    \<and> (rr_outcome r \<noteq> CHALLENGE \<longrightarrow> \<not> truthy (rr_challenge r))"
  by (auto simp: list_all_iff engineResult_def)

section \<open>Claims about the decision combiner\<close>

text \<open>
  Claim C1. For every action, list of rule results and key map: an empty list gives
  ALLOWED, \<open>allowed = true\<close>, \<open>retryAfterMs = 0\<close>; with at least one BLOCKED result the
  decision is BLOCKED with \<open>allowed = false\<close>, and \<open>retryAfterMs\<close> is the maximum of
  the \<open>retryAfterMs\<close> of the BLOCKED results, for every list in which a BLOCKED
  result has a retry time that is not negative, so for every list of retry times as
  the specification has them (section 8) and the engine produces them
  (\<open>evaluateRules_double_engineResult\<close>); for every list whatsoever it is the maximum of
  those values and 0. With no BLOCKED and at least one CHALLENGE result the decision is
  CHALLENGE with \<open>allowed = true\<close>, and \<open>challenge\<close> is the first non-empty hint in
  list order, for every list in which only CHALLENGE results carry a hint, as the
  engine produces them; for every list whatsoever it is the first non-empty hint of a
  CHALLENGE result. With neither, the decision is ALLOWED, \<open>allowed = true\<close>,
  \<open>retryAfterMs = 0\<close>.
\<close>

theorem combineRuleResults_spec:
  "(rs = [] \<longrightarrow>
      outcome (combineRuleResults act rs ks) = ALLOWED
    \<and> allowed (combineRuleResults act rs ks)
    \<and> retryAfterMs (combineRuleResults act rs ks) = 0)
   \<and> ((\<exists>r\<in>set rs. rr_outcome r = BLOCKED) \<longrightarrow>
      outcome (combineRuleResults act rs ks) = BLOCKED
    \<and> \<not> allowed (combineRuleResults act rs ks)
    \<and> retryAfterMs (combineRuleResults act rs ks) = Max (set (0 # blockedRetries rs)))
   \<and> ((\<exists>r\<in>set rs. rr_outcome r = BLOCKED \<and> 0 \<le> rr_retryAfterMs r) \<longrightarrow>
      retryAfterMs (combineRuleResults act rs ks) = Max (set (blockedRetries rs)))
   \<and> ((\<forall>r\<in>set rs. rr_outcome r \<noteq> BLOCKED) \<and> (\<exists>r\<in>set rs. rr_outcome r = CHALLENGE) \<longrightarrow>
      outcome (combineRuleResults act rs ks) = CHALLENGE
    \<and> allowed (combineRuleResults act rs ks)
    \<and> challenge (combineRuleResults act rs ks) = firstChallengeHint rs)
   \<and> ((\<forall>r\<in>set rs. rr_outcome r \<noteq> BLOCKED) \<and> (\<exists>r\<in>set rs. rr_outcome r = CHALLENGE)
      \<and> (\<forall>r\<in>set rs. rr_outcome r \<noteq> CHALLENGE \<longrightarrow> \<not> truthy (rr_challenge r)) \<longrightarrow>
      challenge (combineRuleResults act rs ks) = firstHint rs)
   \<and> ((\<forall>r\<in>set rs. rr_outcome r \<noteq> BLOCKED \<and> rr_outcome r \<noteq> CHALLENGE) \<longrightarrow>
      outcome (combineRuleResults act rs ks) = ALLOWED
    \<and> allowed (combineRuleResults act rs ks)
    \<and> retryAfterMs (combineRuleResults act rs ks) = 0)"
proof -
  have blocked_empty: "blockedRetries rs = []" if "\<forall>r\<in>set rs. rr_outcome r \<noteq> BLOCKED"
    using that by (induction rs) (auto simp: blockedRetries_def)
  have hint: "challenge (combineRuleResults act rs ks) = firstChallengeHint rs" if "rs \<noteq> []"
    using that scan_hint [of scanStart rs]
    by (simp add: combineRuleResults_def Let_def) (simp add: scanStart_def)
  have c1: "rs = [] \<longrightarrow>
      outcome (combineRuleResults act rs ks) = ALLOWED
    \<and> allowed (combineRuleResults act rs ks)
    \<and> retryAfterMs (combineRuleResults act rs ks) = 0"
    by (simp add: combineRuleResults_def)
  have c2: "(\<exists>r\<in>set rs. rr_outcome r = BLOCKED) \<longrightarrow>
      outcome (combineRuleResults act rs ks) = BLOCKED
    \<and> \<not> allowed (combineRuleResults act rs ks)
    \<and> retryAfterMs (combineRuleResults act rs ks) = Max (set (0 # blockedRetries rs))"
    by (auto simp: combineRuleResults_def Let_def scan_hasBlock scan_maxRetry scanStart_def)
  have c3: "(\<exists>r\<in>set rs. rr_outcome r = BLOCKED \<and> 0 \<le> rr_retryAfterMs r) \<longrightarrow>
      retryAfterMs (combineRuleResults act rs ks) = Max (set (blockedRetries rs))"
    using c2 Max_blocked_nonneg by metis
  have c4: "(\<forall>r\<in>set rs. rr_outcome r \<noteq> BLOCKED) \<and> (\<exists>r\<in>set rs. rr_outcome r = CHALLENGE) \<longrightarrow>
      outcome (combineRuleResults act rs ks) = CHALLENGE
    \<and> allowed (combineRuleResults act rs ks)
    \<and> challenge (combineRuleResults act rs ks) = firstChallengeHint rs"
    using hint
    by (auto simp: combineRuleResults_def Let_def scan_hasBlock scan_hasChallenge scanStart_def)
  have c5: "(\<forall>r\<in>set rs. rr_outcome r \<noteq> BLOCKED \<and> rr_outcome r \<noteq> CHALLENGE) \<longrightarrow>
      outcome (combineRuleResults act rs ks) = ALLOWED
    \<and> allowed (combineRuleResults act rs ks)
    \<and> retryAfterMs (combineRuleResults act rs ks) = 0"
    using blocked_empty
    by (auto simp: combineRuleResults_def Let_def scan_hasBlock scan_hasChallenge
        scan_maxRetry scanStart_def)
  have c6: "(\<forall>r\<in>set rs. rr_outcome r \<noteq> BLOCKED) \<and> (\<exists>r\<in>set rs. rr_outcome r = CHALLENGE)
      \<and> (\<forall>r\<in>set rs. rr_outcome r \<noteq> CHALLENGE \<longrightarrow> \<not> truthy (rr_challenge r)) \<longrightarrow>
      challenge (combineRuleResults act rs ks) = firstHint rs"
    using c4 firstHint_challenge [of rs] by simp
  from c1 c2 c3 c4 c5 c6 show ?thesis by blast
qed

text \<open>
  The theorem at three lists: a CHALLENGE result followed by two BLOCKED results
  (retry 200 and 150), the CHALLENGE result alone, and the empty list.
\<close>

theorem combineRuleResults_spec_witness:
  "(\<exists>r\<in>set sampleResults. rr_outcome r = BLOCKED \<and> 0 \<le> rr_retryAfterMs r)
   \<and> outcome (combineRuleResults ''login'' sampleResults Map.empty) = BLOCKED
   \<and> \<not> allowed (combineRuleResults ''login'' sampleResults Map.empty)
   \<and> retryAfterMs (combineRuleResults ''login'' sampleResults Map.empty) = 200
   \<and> rr_outcome (hd sampleResults) = CHALLENGE
   \<and> outcome (combineRuleResults ''login'' [hd sampleResults] Map.empty) = CHALLENGE
   \<and> allowed (combineRuleResults ''login'' [hd sampleResults] Map.empty)
   \<and> challenge (combineRuleResults ''login'' [hd sampleResults] Map.empty)
       = Some ''captcha_required''
   \<and> firstHint [hd sampleResults] = Some ''captcha_required''
   \<and> outcome (combineRuleResults ''login'' [] Map.empty) = ALLOWED
   \<and> retryAfterMs (combineRuleResults ''login'' [] Map.empty) = 0"
proof -
  note a = combineRuleResults_spec [where rs = sampleResults and act = "''login''"
                                      and ks = Map.empty]
  note b = combineRuleResults_spec [where rs = "[hd sampleResults]" and act = "''login''"
                                      and ks = Map.empty]
  note c = combineRuleResults_spec [where rs = "[]" and act = "''login''" and ks = Map.empty]
  have h1: "\<exists>r\<in>set sampleResults. rr_outcome r = BLOCKED \<and> 0 \<le> rr_retryAfterMs r"
    by (simp add: sampleResults_def)
  have h2: "(\<forall>r\<in>set [hd sampleResults]. rr_outcome r \<noteq> BLOCKED)
   \<and> (\<exists>r\<in>set [hd sampleResults]. rr_outcome r = CHALLENGE)
   \<and> (\<forall>r\<in>set [hd sampleResults]. rr_outcome r \<noteq> CHALLENGE \<longrightarrow> \<not> truthy (rr_challenge r))"
    by (simp add: sampleResults_def)
  have m: "Max (set (blockedRetries sampleResults)) = 200"
    by (simp add: sampleResults_def blockedRetries_def)
  have f: "firstHint [hd sampleResults] = Some ''captcha_required''"
    by (simp add: sampleResults_def)
  have 1: "outcome (combineRuleResults ''login'' sampleResults Map.empty) = BLOCKED
   \<and> \<not> allowed (combineRuleResults ''login'' sampleResults Map.empty)
   \<and> retryAfterMs (combineRuleResults ''login'' sampleResults Map.empty) = 200"
  proof -
    from h1 have "\<exists>r\<in>set sampleResults. rr_outcome r = BLOCKED" by blast
    with a have "outcome (combineRuleResults ''login'' sampleResults Map.empty) = BLOCKED
        \<and> \<not> allowed (combineRuleResults ''login'' sampleResults Map.empty)"
      by blast
    moreover from a h1
    have "retryAfterMs (combineRuleResults ''login'' sampleResults Map.empty)
            = Max (set (blockedRetries sampleResults))"
      by blast
    ultimately show ?thesis by (simp add: m)
  qed
  have 2: "outcome (combineRuleResults ''login'' [hd sampleResults] Map.empty) = CHALLENGE
   \<and> allowed (combineRuleResults ''login'' [hd sampleResults] Map.empty)
   \<and> challenge (combineRuleResults ''login'' [hd sampleResults] Map.empty)
       = Some ''captcha_required''"
  proof -
    from b h2 have "outcome (combineRuleResults ''login'' [hd sampleResults] Map.empty) = CHALLENGE
        \<and> allowed (combineRuleResults ''login'' [hd sampleResults] Map.empty)"
      by blast
    moreover from b h2
    have "challenge (combineRuleResults ''login'' [hd sampleResults] Map.empty)
            = firstHint [hd sampleResults]"
      by blast
    then have "challenge (combineRuleResults ''login'' [hd sampleResults] Map.empty)
            = Some ''captcha_required''"
      using f by (rule trans)
    ultimately show ?thesis by blast
  qed
  have 3: "outcome (combineRuleResults ''login'' [] Map.empty) = ALLOWED
   \<and> retryAfterMs (combineRuleResults ''login'' [] Map.empty) = 0"
    using c by simp
  have h3: "rr_outcome (hd sampleResults) = CHALLENGE"
    by (simp add: sampleResults_def)
  from h1 h3 f 1 2 3 show ?thesis by blast
qed

section \<open>Claims about the policy engine\<close>

text \<open>
  Claim C6. For every rule one of whose declared dimensions is absent or empty in the
  context, for every policy (so for both fail modes), every store and every store
  state, \<open>evaluateRule\<close> returns the result with key \<open>skipped\<close>, \<open>allowed = true\<close>,
  outcome ALLOWED, \<open>retryAfterMs = 0\<close> and \<open>remainingTokens\<close> equal to the rule's
  capacity, and returns the store state it was given: the store is neither read nor
  written, whatever its \<open>get\<close> and \<open>set\<close> would have done.
\<close>

theorem evaluateRule_skipped:
  assumes "\<exists>d\<in>set (rule_key rule).
             keyExtractor eng d context = None \<or> keyExtractor eng d context = Some []"
  shows "evaluateRule fl eng now rule context policy s =
           (Inr \<lparr>ruleName = rule_name rule, rr_key = ''skipped'', rr_allowed = True,
                 rr_outcome = ALLOWED, rr_retryAfterMs = 0,
                 rr_remainingTokens = rule_capacity rule, rr_challenge = None\<rparr>, s)"
proof -
  have "buildKey (policy_id policy) rule context (keyExtractor eng) = None"
    using assms by (simp add: buildKey_None_iff)
  then show ?thesis by (simp add: evaluateRule_def)
qed

text \<open>
  The theorem with a store that counts its calls, for a context without an IP address
  and both fail modes: the counter stays at 0. With an IP address the same rule makes
  two calls.
\<close>

theorem evaluateRule_skipped_witness:
  "(\<exists>d\<in>set (rule_key challengeRule).
      keyExtractor (countingEngine Closed) d anonymousContext = None
      \<or> keyExtractor (countingEngine Closed) d anonymousContext = Some [])
   \<and> evaluateRule roundDouble (countingEngine Closed) 0 challengeRule anonymousContext (loginPolicy Closed) 0
       = (Inr \<lparr>ruleName = ''per_ip'', rr_key = ''skipped'', rr_allowed = True,
               rr_outcome = ALLOWED, rr_retryAfterMs = 0, rr_remainingTokens = 3,
               rr_challenge = None\<rparr>, 0)
   \<and> evaluateRule roundDouble (countingEngine Open) 0 challengeRule anonymousContext (loginPolicy Open) 0
       = (Inr \<lparr>ruleName = ''per_ip'', rr_key = ''skipped'', rr_allowed = True,
               rr_outcome = ALLOWED, rr_retryAfterMs = 0, rr_remainingTokens = 3,
               rr_challenge = None\<rparr>, 0)
   \<and> snd (evaluateRule roundDouble (countingEngine Open) 0 challengeRule ipContext (loginPolicy Open) 0) = 2"
proof -
  have h: "\<exists>d\<in>set (rule_key challengeRule).
      keyExtractor (countingEngine fm) d anonymousContext = None
      \<or> keyExtractor (countingEngine fm) d anonymousContext = Some []" for fm
    by (simp add: challengeRule_def countingEngine_def defaultKeyExtractor_def
        anonymousContext_def)
  have k: "buildKey ''login'' challengeRule ipContext defaultKeyExtractor
             = Some ''login:per_ip:ip=10.0.0.1''"
    by (simp add: buildKey_def challengeRule_def ipContext_def defaultKeyExtractor_def
        sanitizeValue_def)
  have c: "snd (evaluateRule roundDouble (countingEngine Open) 0 challengeRule ipContext (loginPolicy Open) 0) = 2"
    by (simp add: evaluateRule_def k countingEngine_def loginPolicy_def countingStore_def Let_def)
  show ?thesis
    using h [of Closed] c
      evaluateRule_skipped [OF h [of Closed], where fl = roundDouble and now = 0
        and policy = "loginPolicy Closed" and s = 0]
      evaluateRule_skipped [OF h [of Open], where fl = roundDouble and now = 0
        and policy = "loginPolicy Open" and s = 0]
    by (simp add: challengeRule_def)
qed

text \<open>
  Claim C5. For every context whose action has a policy, if a store call throws while
  the rules are evaluated, \<open>check\<close> returns a decision (its result type has no thrown
  value): the error decision of the policy's fail mode, with
  \<open>failedDueToError = true\<close>; fail mode open gives \<open>allowed = true\<close>, ALLOWED,
  \<open>retryAfterMs = 0\<close>, fail mode closed gives \<open>allowed = false\<close>, BLOCKED,
  \<open>retryAfterMs = 60000\<close>.
\<close>

theorem check_store_error:
  assumes pol: "policies eng (ctx_action context) = Some policy"
    and thr: "firstStoreThrow fl eng now policy context (rules policy) s = Some e"
  shows "fst (check fl eng now context s)
           = createErrorDecision (ctx_action context) (failMode policy)
               (ErrorValue (errorMessage e))
       \<and> failedDueToError (fst (check fl eng now context s)) = Some True
       \<and> (failMode policy = Open \<longrightarrow>
            allowed (fst (check fl eng now context s))
          \<and> outcome (fst (check fl eng now context s)) = ALLOWED
          \<and> retryAfterMs (fst (check fl eng now context s)) = 0)
       \<and> (failMode policy = Closed \<longrightarrow>
            \<not> allowed (fst (check fl eng now context s))
          \<and> outcome (fst (check fl eng now context s)) = BLOCKED
          \<and> retryAfterMs (fst (check fl eng now context s)) = 60000)"
proof -
  have "fst (evaluateRules fl eng now policy context (rules policy) [] Map.empty s) = Inl e"
    using thr by (rule evaluateRules_throw)
  then obtain s1 where "evaluateRules fl eng now policy context (rules policy) [] Map.empty s
                          = (Inl e, s1)"
    by (cases "evaluateRules fl eng now policy context (rules policy) [] Map.empty s") simp
  then have "evaluatePolicy fl eng now policy context s = (Inl e, s1)"
    by (simp add: evaluatePolicy_def)
  then have eq: "fst (check fl eng now context s)
           = createErrorDecision (ctx_action context) (failMode policy)
               (ErrorValue (errorMessage e))"
    using pol by (simp add: check_def Let_def)
  show ?thesis
    unfolding eq using createErrorDecision_fields by simp
qed

text \<open>
  The theorem with the memory store after its shutdown, whose \<open>get\<close> throws, for both
  fail modes.
\<close>

theorem check_store_error_witness:
  "policies (memoryEngine Closed) (ctx_action ipContext) = Some (loginPolicy Closed)
   \<and> firstStoreThrow roundDouble (memoryEngine Closed) 0 (loginPolicy Closed) ipContext
       (rules (loginPolicy Closed)) shutStore = Some shutdownError
   \<and> \<not> allowed (fst (check roundDouble (memoryEngine Closed) 0 ipContext shutStore))
   \<and> outcome (fst (check roundDouble (memoryEngine Closed) 0 ipContext shutStore)) = BLOCKED
   \<and> retryAfterMs (fst (check roundDouble (memoryEngine Closed) 0 ipContext shutStore)) = 60000
   \<and> failedDueToError (fst (check roundDouble (memoryEngine Closed) 0 ipContext shutStore)) = Some True
   \<and> allowed (fst (check roundDouble (memoryEngine Open) 0 ipContext shutStore))
   \<and> outcome (fst (check roundDouble (memoryEngine Open) 0 ipContext shutStore)) = ALLOWED
   \<and> retryAfterMs (fst (check roundDouble (memoryEngine Open) 0 ipContext shutStore)) = 0
   \<and> failedDueToError (fst (check roundDouble (memoryEngine Open) 0 ipContext shutStore)) = Some True"
proof -
  have p: "policies (memoryEngine fm) (ctx_action ipContext) = Some (loginPolicy fm)" for fm
    by (simp add: memoryEngine_def ipContext_def)
  have t: "firstStoreThrow roundDouble (memoryEngine fm) 0 (loginPolicy fm) ipContext
             (rules (loginPolicy fm)) shutStore = Some shutdownError" for fm
    by (simp add: memoryEngine_def loginPolicy_def ipKey memoryStoreAt_def shut_get)
  have f: "failMode (loginPolicy fm) = fm" for fm
    by (simp add: loginPolicy_def)
  show ?thesis
    using check_store_error [OF p [of Closed] t [of Closed], THEN conjunct2]
          check_store_error [OF p [of Open] t [of Open], THEN conjunct2]
          p [of Closed] t [of Closed]
    by (simp add: f)
qed

text \<open>
  What \<open>evaluateRule\<close> returns for a rule with mode challenge whose key can be built,
  whose store calls succeed and whose attempt to consume is denied: a result with
  outcome CHALLENGE, the hint \<open>captcha_required\<close>, the \<open>retryAfterMs\<close> of the
  attempt, and the flag \<open>allowed\<close> of the attempt, which is false. A decision combined
  from this result and no BLOCKED result is CHALLENGE with \<open>allowed = true\<close> and
  \<open>retryAfterMs = 0\<close>.
\<close>

lemma challenge_result_not_allowed:
  assumes mode: "rule_mode rule = Some Challenge"
    and key: "buildKey (policy_id policy) rule context (keyExtractor eng) = Some k"
    and get: "store_get (pe_store eng) k s = (Inr got, s1)"
    and denied: "\<not> cr_allowed (consumeForRule fl rule now got)"
    and put: "store_set (pe_store eng) k (bucketState (consumeForRule fl rule now got))
                (calculateDefaultTtl fl rule) s1 = (Inr u, s2)"
  shows "evaluateRule fl eng now rule context policy s
           = (Inr \<lparr>ruleName = rule_name rule, rr_key = k, rr_allowed = False,
                   rr_outcome = CHALLENGE,
                   rr_retryAfterMs = cr_retryAfterMs (consumeForRule fl rule now got),
                   rr_remainingTokens = cr_remainingTokens (consumeForRule fl rule now got),
                   rr_challenge = Some ''captcha_required''\<rparr>, s2)"
  using mode key get denied put by (simp add: evaluateRule_def ruleMode_def Let_def)

text \<open>
  Claim C3 does not hold of the code. The claim says that a rule with mode challenge
  whose attempt to consume is denied gives a rule result with \<open>allowed = true\<close>, and
  that its \<open>retryAfterMs\<close> enters the decision. \<open>evaluateRule\<close> copies the flag of
  the attempt, so the result has \<open>allowed = false\<close>, and \<open>combineRuleResults\<close> takes
  the retry time of BLOCKED results only. The code is evaluated here, in double
  arithmetic, at a rule with mode challenge (capacity 3, 3 tokens per 60000 ms) and a
  bucket of the memory store with no tokens left, at time 0: the attempt is denied, the
  rule result is CHALLENGE with \<open>allowed = false\<close> and \<open>retryAfterMs = 20000\<close>, and
  the decision of \<open>check\<close> is CHALLENGE with \<open>allowed = true\<close>, \<open>retryAfterMs = 0\<close>
  and that rule result in its list.
\<close>

theorem evaluateRule_challenge_denied:
  "rule_mode challengeRule = Some Challenge
   \<and> cr_allowed (consumeForRule roundDouble challengeRule 0
        (Some \<lparr>tokens = 0, lastRefillTime = 0, createdAt = 0, expiresAt = 120000\<rparr>)) = False
   \<and> evaluateRule roundDouble (memoryEngine Closed) 0 challengeRule ipContext
        (loginPolicy Closed) exhaustedStore
     = (Inr \<lparr>ruleName = ''per_ip'', rr_key = ''login:per_ip:ip=10.0.0.1'', rr_allowed = False,
             rr_outcome = CHALLENGE, rr_retryAfterMs = 20000, rr_remainingTokens = 0,
             rr_challenge = Some ''captcha_required''\<rparr>, exhaustedStore)
   \<and> allowed (fst (check roundDouble (memoryEngine Closed) 0 ipContext exhaustedStore)) = True
   \<and> outcome (fst (check roundDouble (memoryEngine Closed) 0 ipContext exhaustedStore)) = CHALLENGE
   \<and> retryAfterMs (fst (check roundDouble (memoryEngine Closed) 0 ipContext exhaustedStore)) = 0
   \<and> ruleResults (fst (check roundDouble (memoryEngine Closed) 0 ipContext exhaustedStore))
     = [\<lparr>ruleName = ''per_ip'', rr_key = ''login:per_ip:ip=10.0.0.1'', rr_allowed = False,
         rr_outcome = CHALLENGE, rr_retryAfterMs = 20000, rr_remainingTokens = 0,
         rr_challenge = Some ''captcha_required''\<rparr>]"
proof -
  let ?r = "\<lparr>ruleName = ''per_ip'', rr_key = ''login:per_ip:ip=10.0.0.1'', rr_allowed = False,
             rr_outcome = CHALLENGE, rr_retryAfterMs = 20000, rr_remainingTokens = 0,
             rr_challenge = Some ''captcha_required''\<rparr>"
  have ev: "evaluateRule roundDouble (memoryEngine Closed) 0 challengeRule ipContext
              (loginPolicy Closed) exhaustedStore = (Inr ?r, exhaustedStore)"
    by (simp add: evaluateRule_def memoryEngine_def loginPolicy_def ipKey memoryStoreAt_def
        exhausted_get exhausted_consume exhausted_set ruleMode_def)
      (simp add: challengeRule_def)
  have rs: "rules (loginPolicy Closed) = [challengeRule]"
    by (simp add: loginPolicy_def)
  have "evaluateRules roundDouble (memoryEngine Closed) 0 (loginPolicy Closed) ipContext
          [challengeRule] [] Map.empty exhaustedStore
        = (Inr ([?r], [''per_ip'' \<mapsto> ''login:per_ip:ip=10.0.0.1'']), exhaustedStore)"
    by (simp add: ev) (simp add: challengeRule_def)
  then have pol: "evaluatePolicy roundDouble (memoryEngine Closed) 0 (loginPolicy Closed)
                    ipContext exhaustedStore
        = (Inr (combineRuleResults ''login'' [?r] [''per_ip'' \<mapsto> ''login:per_ip:ip=10.0.0.1'']),
           exhaustedStore)"
    by (simp add: evaluatePolicy_def rs) (simp add: loginPolicy_def)
  have p: "policies (memoryEngine Closed) (ctx_action ipContext) = Some (loginPolicy Closed)"
    by (simp add: memoryEngine_def ipContext_def)
  have ck: "fst (check roundDouble (memoryEngine Closed) 0 ipContext exhaustedStore)
          = combineRuleResults ''login'' [?r] [''per_ip'' \<mapsto> ''login:per_ip:ip=10.0.0.1'']"
    using p pol by (simp add: check_def Let_def)
  have c: "allowed (combineRuleResults ''login'' [?r] ks) = True
         \<and> outcome (combineRuleResults ''login'' [?r] ks) = CHALLENGE
         \<and> retryAfterMs (combineRuleResults ''login'' [?r] ks) = 0
         \<and> ruleResults (combineRuleResults ''login'' [?r] ks) = [?r]" for ks
    by (simp add: combineRuleResults_def Let_def scanStep_def scanStart_def)
  have m: "rule_mode challengeRule = Some Challenge" by (simp add: challengeRule_def)
  have d: "cr_allowed (consumeForRule roundDouble challengeRule 0
        (Some \<lparr>tokens = 0, lastRefillTime = 0, createdAt = 0, expiresAt = 120000\<rparr>)) = False"
    by (simp add: exhausted_consume)
  show ?thesis
    unfolding ck using m d ev c by blast
qed

section \<open>The memory store after shutdown, and its set\<close>

lemma runOp_shutdown:
  "isShutdown m \<Longrightarrow>
     runOp op now m
       = (if op = OpShutdown \<or> op = OpSweepTick then Inr Done else Inl shutdownError, m)"
  by (cases op)
     (simp_all add: ms_get_def ms_set_def ms_delete_def ms_has_def ms_size_def ms_clear_def
        ms_shutdown_def sweep_def checkShutdown_def)

lemma runOps_shutdown:
  "isShutdown m \<Longrightarrow> snd (runOps ops m) = m"
proof (induction ops)
  case Nil
  show ?case by simp
next
  case (Cons a ops)
  obtain op now where a: "a = (op, now)" by (cases a)
  obtain rs m2 where r: "runOps ops m = (rs, m2)" by (cases "runOps ops m")
  with Cons have "m2 = m" by simp
  with r Cons.prems show ?case by (simp add: a runOp_shutdown)
qed

lemma shutdown_isShutdown: "isShutdown (snd (ms_shutdown m))"
  by (simp add: ms_shutdown_def)

lemma set_then_lookup:
  "\<not> isShutdown m \<Longrightarrow>
     map_of (store (snd (ms_set k st ttlMs now m))) k = Some \<lparr>state = st, lastAccessedAt = now\<rparr>
   \<and> \<not> isShutdown (snd (ms_set k st ttlMs now m))"
  by (simp add: ms_set_def checkShutdown_def evictEntries_def Let_def update_conv'
      split: option.splits)

section \<open>Claims about the memory store\<close>

text \<open>
  Claim C9. After \<open>shutdown\<close> the store is shut down; a second \<open>shutdown\<close> returns
  without an error and changes nothing; and after any further sequence of operations
  and timer ticks the store is still in the state the shutdown left, where each of
  \<open>get\<close>, \<open>set\<close>, \<open>delete\<close>, \<open>has\<close>, \<open>size\<close> and \<open>clear\<close> throws the error
  "MemoryStore has been shutdown".
\<close>

theorem shutdown_idempotent_final:
  "isShutdown (snd (ms_shutdown m))
   \<and> ms_shutdown (snd (ms_shutdown m)) = (Inr (), snd (ms_shutdown m))
   \<and> snd (runOps ops (snd (ms_shutdown m))) = snd (ms_shutdown m)
   \<and> ms_get k now (snd (runOps ops (snd (ms_shutdown m))))
       = (Inl shutdownError, snd (ms_shutdown m))
   \<and> ms_set k st ttlMs now (snd (runOps ops (snd (ms_shutdown m))))
       = (Inl shutdownError, snd (ms_shutdown m))
   \<and> ms_delete k (snd (runOps ops (snd (ms_shutdown m))))
       = (Inl shutdownError, snd (ms_shutdown m))
   \<and> ms_has k now (snd (runOps ops (snd (ms_shutdown m))))
       = (Inl shutdownError, snd (ms_shutdown m))
   \<and> ms_size (snd (runOps ops (snd (ms_shutdown m))))
       = (Inl shutdownError, snd (ms_shutdown m))
   \<and> ms_clear (snd (runOps ops (snd (ms_shutdown m))))
       = (Inl shutdownError, snd (ms_shutdown m))"
proof -
  have sh: "isShutdown (snd (ms_shutdown m))" by (rule shutdown_isShutdown)
  have st: "snd (runOps ops (snd (ms_shutdown m))) = snd (ms_shutdown m)"
    using sh by (rule runOps_shutdown)
  show ?thesis
    unfolding st using sh
    by (simp add: ms_get_def ms_set_def ms_delete_def ms_has_def ms_size_def ms_clear_def
        checkShutdown_def) (simp add: ms_shutdown_def)
qed

text \<open>
  Claim C10. For every key, bucket state, store and two time-to-live values,
  \<open>set\<close> returns the same result and leaves the same store, so every later sequence
  of operations (\<open>get\<close>, \<open>has\<close>, sweeps and the others) gives the same replies and
  the same store; and on a store that is not shut down, a \<open>get\<close> of the key after
  the \<open>set\<close> finds the state exactly while the clock is below the \<open>expiresAt\<close> of
  the stored state, whatever the time-to-live was.
\<close>

theorem set_ignores_ttl:
  "ms_set k st t1 now m = ms_set k st t2 now m
   \<and> runOps ops (snd (ms_set k st t1 now m)) = runOps ops (snd (ms_set k st t2 now m))
   \<and> (\<not> isShutdown m \<longrightarrow>
        fst (ms_get k later (snd (ms_set k st t1 now m)))
          = Inr (if later \<ge> expiresAt st then None else Some st))"
proof -
  have "fst (ms_get k later (snd (ms_set k st t1 now m)))
          = Inr (if later \<ge> expiresAt st then None else Some st)" if "\<not> isShutdown m"
    using set_then_lookup [OF that, of k st t1 now]
    by (simp add: ms_get_def checkShutdown_def)
  then show ?thesis by (simp add: ms_set_def)
qed

text \<open>
  The theorem at a new store with the time-to-live values 1 and 99999 and a state that
  expires at 20000: the state is found at 19999 and gone at 20000.
\<close>

theorem set_ignores_ttl_witness:
  "\<not> isShutdown defaultStore
   \<and> ms_set ''k'' halfBucket 1 0 defaultStore = ms_set ''k'' halfBucket 99999 0 defaultStore
   \<and> fst (ms_get ''k'' 19999 (snd (ms_set ''k'' halfBucket 1 0 defaultStore))) = Inr (Some halfBucket)
   \<and> fst (ms_get ''k'' 20000 (snd (ms_set ''k'' halfBucket 1 0 defaultStore))) = Inr None"
proof -
  have n: "\<not> isShutdown defaultStore"
    by (simp add: defaultStore_def newMemoryStore_def Let_def)
  have e: "expiresAt halfBucket = 20000" by (simp add: halfBucket_def)
  note a = set_ignores_ttl [where k = "''k''" and st = halfBucket and ?t1.0 = 1
                               and ?t2.0 = 99999 and now = 0 and m = defaultStore
                               and later = 19999 and ops = "[]"]
  note b = set_ignores_ttl [where k = "''k''" and st = halfBucket and ?t1.0 = 1
                               and ?t2.0 = 99999 and now = 0 and m = defaultStore
                               and later = 20000 and ops = "[]"]
  have 1: "ms_set ''k'' halfBucket 1 0 defaultStore = ms_set ''k'' halfBucket 99999 0 defaultStore"
    using a by (rule conjunct1)
  have 2: "fst (ms_get ''k'' 19999 (snd (ms_set ''k'' halfBucket 1 0 defaultStore)))
             = Inr (Some halfBucket)"
  proof -
    from a have "\<not> isShutdown defaultStore \<longrightarrow>
        fst (ms_get ''k'' 19999 (snd (ms_set ''k'' halfBucket 1 0 defaultStore)))
          = Inr (if 19999 \<ge> expiresAt halfBucket then None else Some halfBucket)"
      by (rule conjunct2 [THEN conjunct2])
    with n show ?thesis by (simp add: e)
  qed
  have 3: "fst (ms_get ''k'' 20000 (snd (ms_set ''k'' halfBucket 1 0 defaultStore))) = Inr None"
  proof -
    from b have "\<not> isShutdown defaultStore \<longrightarrow>
        fst (ms_get ''k'' 20000 (snd (ms_set ''k'' halfBucket 1 0 defaultStore)))
          = Inr (if 20000 \<ge> expiresAt halfBucket then None else Some halfBucket)"
      by (rule conjunct2 [THEN conjunct2])
    with n show ?thesis by (simp add: e)
  qed
  from n 1 2 3 show ?thesis by blast
qed

section \<open>Splitting, joining and parsing keys\<close>

lemma buildParts_Some:
  "\<forall>d\<in>set ds. ex d ctx \<noteq> None \<and> ex d ctx \<noteq> Some [] \<Longrightarrow>
     buildParts ex ctx parts ds = Some (parts @ map (keySegment ex ctx) ds)"
  by (induction ds arbitrary: parts) (auto simp: keySegment_def)

lemma splitOn_nonempty: "splitOn sep s \<noteq> []"
  by (induction s) (auto split: list.splits)

lemma splitOn_no_sep: "sep \<notin> set p \<Longrightarrow> splitOn sep p = [p]"
  by (induction p) auto

lemma splitOn_append:
  "sep \<notin> set p \<Longrightarrow> splitOn sep (p @ sep # rest) = p # splitOn sep rest"
  by (induction p) (auto split: list.splits simp: splitOn_nonempty)

lemma splitOn_joinWith:
  "ps \<noteq> [] \<Longrightarrow> \<forall>p\<in>set ps. sep \<notin> set p \<Longrightarrow> splitOn sep (joinWith sep ps) = ps"
proof (induction sep ps rule: joinWith.induct)
  case (1 sep)
  then show ?case by simp
next
  case (2 sep p)
  then show ?case by (simp add: splitOn_no_sep)
next
  case (3 sep p q ps)
  then show ?case by (simp add: splitOn_append)
qed

lemma sanitizeValue_clean:
  "KEY_SEPARATOR \<notin> set (sanitizeValue v) \<and> VALUE_SEPARATOR \<notin> set (sanitizeValue v)"
  by (auto simp: sanitizeValue_def)

lemma parseSegment_pair:
  "d \<noteq> [] \<Longrightarrow> VALUE_SEPARATOR \<notin> set d \<Longrightarrow>
     parseSegment dims (d @ VALUE_SEPARATOR # v)
       = (if d = ''__proto__'' then dims else dims(d \<mapsto> v))"
proof -
  assume ne: "d \<noteq> []" and cl: "VALUE_SEPARATOR \<notin> set d"
  have all: "\<forall>c\<in>set d. c \<noteq> VALUE_SEPARATOR" using cl by auto
  have tw: "takeWhile (\<lambda>c. c \<noteq> VALUE_SEPARATOR) (d @ VALUE_SEPARATOR # v) = d"
    using all by (induction d) auto
  have dw: "dropWhile (\<lambda>c. c \<noteq> VALUE_SEPARATOR) (d @ VALUE_SEPARATOR # v)
              = VALUE_SEPARATOR # v"
    using all by (induction d) auto
  show ?thesis
    unfolding parseSegment_def Let_def tw dw using ne by simp
qed

lemma parse_segments:
  "\<forall>d\<in>set ds. d \<noteq> [] \<and> VALUE_SEPARATOR \<notin> set d \<and> d \<noteq> ''__proto__'' \<Longrightarrow>
     foldl parseSegment dims (map (keySegment ex ctx) ds) x
       = (if x \<in> set ds then Some (sanitizeValue (the (ex x ctx))) else dims x)"
  by (induction ds arbitrary: dims) (auto simp: keySegment_def parseSegment_pair)

section \<open>Claims about the key builder\<close>

text \<open>
  Claim C8, as the code has it. For every action, rule, context and extractor:
  \<open>buildKey\<close> returns no key exactly when the value of some declared dimension is
  absent or the empty string; otherwise it returns the action, the rule name and one
  \<open>dimension=value\<close> part per declared dimension, joined by colons, where every
  colon and equals sign of a value is replaced by an underscore; and for every
  well-formed key that \<open>buildKey\<close> produces (action, rule name and dimension names
  not empty and free of separators) from a rule none of whose dimensions is named
  \<open>__proto__\<close>, \<open>parseKey\<close> recovers the action, the rule name and the map from
  each declared dimension to the value that was embedded. The seven names of the type
  \<open>KeyDimension\<close> are all of this kind.
\<close>

theorem buildKey_parseKey:
  "(buildKey act rule ctx ex = None
      \<longleftrightarrow> (\<exists>d\<in>set (rule_key rule). ex d ctx = None \<or> ex d ctx = Some []))
   \<and> (buildKey act rule ctx ex \<noteq> None \<longrightarrow>
        buildKey act rule ctx ex
          = Some (joinWith KEY_SEPARATOR
                    (act # rule_name rule # map (keySegment ex ctx) (rule_key rule))))
   \<and> KEY_SEPARATOR \<notin> set (sanitizeValue v) \<and> VALUE_SEPARATOR \<notin> set (sanitizeValue v)
   \<and> sanitizeValue v
        = map (\<lambda>c. if c = KEY_SEPARATOR \<or> c = VALUE_SEPARATOR then CHR ''_'' else c) v
   \<and> (wellFormedNames act rule \<and> ''__proto__'' \<notin> set (rule_key rule)
        \<and> buildKey act rule ctx ex = Some k \<longrightarrow>
        parseKey k = Some \<lparr>pk_action = act, pk_ruleName = rule_name rule,
                            pk_dimensions = embeddedDimensions rule ctx ex\<rparr>)"
proof -
  let ?ds = "rule_key rule"
  let ?parts = "act # rule_name rule # map (keySegment ex ctx) ?ds"
  have none: "buildKey act rule ctx ex = None
      \<longleftrightarrow> (\<exists>d\<in>set ?ds. ex d ctx = None \<or> ex d ctx = Some [])"
    by (rule buildKey_None_iff)
  have some: "buildKey act rule ctx ex = Some (joinWith KEY_SEPARATOR ?parts)"
    if "buildKey act rule ctx ex \<noteq> None"
  proof -
    have "\<forall>d\<in>set ?ds. ex d ctx \<noteq> None \<and> ex d ctx \<noteq> Some []"
      using that none by auto
    then have "buildParts ex ctx [act, rule_name rule] ?ds
                 = Some ([act, rule_name rule] @ map (keySegment ex ctx) ?ds)"
      by (rule buildParts_Some [where ex = ex and ctx = ctx])
    then show ?thesis by (simp add: buildKey_def)
  qed
  have rt: "parseKey k = Some \<lparr>pk_action = act, pk_ruleName = rule_name rule,
                            pk_dimensions = embeddedDimensions rule ctx ex\<rparr>"
    if wf: "wellFormedNames act rule" and np: "''__proto__'' \<notin> set (rule_key rule)"
      and bk: "buildKey act rule ctx ex = Some k"
  proof -
    from bk some have k: "k = joinWith KEY_SEPARATOR ?parts" by simp
    from bk none have ok: "\<forall>d\<in>set ?ds. ex d ctx \<noteq> None \<and> ex d ctx \<noteq> Some []" by auto
    from wf have dn: "\<forall>d\<in>set ?ds. d \<noteq> [] \<and> KEY_SEPARATOR \<notin> set d \<and> VALUE_SEPARATOR \<notin> set d"
      by (simp add: wellFormedNames_def list_all_iff)
    from dn np have dp: "\<forall>d\<in>set ?ds. d \<noteq> [] \<and> VALUE_SEPARATOR \<notin> set d \<and> d \<noteq> ''__proto__''"
      by auto
    have clean: "\<forall>p\<in>set ?parts. KEY_SEPARATOR \<notin> set p"
      using wf dn sanitizeValue_clean by (auto simp: wellFormedNames_def keySegment_def)
    have sp: "splitOn KEY_SEPARATOR k = ?parts"
      unfolding k using clean by (intro splitOn_joinWith) simp_all
    have dims: "foldl parseSegment Map.empty (map (keySegment ex ctx) ?ds)
                  = embeddedDimensions rule ctx ex"
    proof
      fix x
      show "foldl parseSegment Map.empty (map (keySegment ex ctx) ?ds) x
              = embeddedDimensions rule ctx ex x"
        using parse_segments [of ?ds Map.empty ex ctx x] dp ok
        by (auto simp: embeddedDimensions_def)
    qed
    show ?thesis
      using wf by (simp add: parseKey_def sp Let_def dims wellFormedNames_def)
  qed
  show ?thesis
    using none some rt sanitizeValue_clean [of v] by (simp add: sanitizeValue_def)
qed

text \<open>
  The theorem at a rule over IP address and e-mail hash with the values \<open>::1\<close> and
  \<open>a=b\<close>, and at a context that has neither.
\<close>

theorem buildKey_parseKey_witness:
  "wellFormedNames ''test_action'' ipEmailRule
   \<and> buildKey ''test_action'' ipEmailRule colonContext defaultKeyExtractor
       = Some ''test_action:per_ip_email:ip=__1:emailHash=a_b''
   \<and> parseKey ''test_action:per_ip_email:ip=__1:emailHash=a_b''
       = Some \<lparr>pk_action = ''test_action'', pk_ruleName = ''per_ip_email'',
                pk_dimensions = embeddedDimensions ipEmailRule colonContext defaultKeyExtractor\<rparr>
   \<and> embeddedDimensions ipEmailRule colonContext defaultKeyExtractor ''ip'' = Some ''__1''
   \<and> embeddedDimensions ipEmailRule colonContext defaultKeyExtractor ''emailHash'' = Some ''a_b''
   \<and> embeddedDimensions ipEmailRule colonContext defaultKeyExtractor ''userId'' = None
   \<and> buildKey ''test_action'' ipEmailRule anonymousContext defaultKeyExtractor = None"
proof -
  have w: "wellFormedNames ''test_action'' ipEmailRule"
    by (simp add: wellFormedNames_def ipEmailRule_def)
  have rn: "rule_name ipEmailRule = ''per_ip_email''" by (simp add: ipEmailRule_def)
  have q: "''__proto__'' \<notin> set (rule_key ipEmailRule)"
    by (simp add: ipEmailRule_def)
  have b: "buildKey ''test_action'' ipEmailRule colonContext defaultKeyExtractor
       = Some ''test_action:per_ip_email:ip=__1:emailHash=a_b''"
    by (simp add: buildKey_def ipEmailRule_def colonContext_def defaultKeyExtractor_def
        sanitizeValue_def)
  have n: "\<exists>d\<in>set (rule_key ipEmailRule).
             defaultKeyExtractor d anonymousContext = None
           \<or> defaultKeyExtractor d anonymousContext = Some []"
    by (simp add: ipEmailRule_def anonymousContext_def defaultKeyExtractor_def)
  note t = buildKey_parseKey [where act = "''test_action''" and rule = ipEmailRule
      and ctx = colonContext and ex = defaultKeyExtractor
      and k = "''test_action:per_ip_email:ip=__1:emailHash=a_b''"]
  note u = buildKey_parseKey [where act = "''test_action''" and rule = ipEmailRule
      and ctx = anonymousContext and ex = defaultKeyExtractor]
  have p: "parseKey ''test_action:per_ip_email:ip=__1:emailHash=a_b''
       = Some \<lparr>pk_action = ''test_action'', pk_ruleName = ''per_ip_email'',
                pk_dimensions = embeddedDimensions ipEmailRule colonContext defaultKeyExtractor\<rparr>"
  proof -
    note r = t [THEN conjunct2, THEN conjunct2, THEN conjunct2, THEN conjunct2, THEN conjunct2]
    from r w q b
    have "parseKey ''test_action:per_ip_email:ip=__1:emailHash=a_b''
       = Some \<lparr>pk_action = ''test_action'', pk_ruleName = rule_name ipEmailRule,
                pk_dimensions = embeddedDimensions ipEmailRule colonContext defaultKeyExtractor\<rparr>"
      by blast
    then show ?thesis unfolding rn .
  qed
  have z: "buildKey ''test_action'' ipEmailRule anonymousContext defaultKeyExtractor = None"
    using u [THEN conjunct1] n by simp
  have e: "embeddedDimensions ipEmailRule colonContext defaultKeyExtractor ''ip'' = Some ''__1''
   \<and> embeddedDimensions ipEmailRule colonContext defaultKeyExtractor ''emailHash'' = Some ''a_b''
   \<and> embeddedDimensions ipEmailRule colonContext defaultKeyExtractor ''userId'' = None"
    by (simp add: embeddedDimensions_def ipEmailRule_def colonContext_def
        defaultKeyExtractor_def sanitizeValue_def)
  from w q b p e z show ?thesis by blast
qed

text \<open>
  The claim as written fails at a rule over the dimension \<open>__proto__\<close>: the key is
  well formed and embeds the value \<open>x\<close>, and \<open>parseKey\<close> returns no dimension,
  since the assignment \<open>dimensions['__proto__'] = 'x'\<close> to a plain object stores
  nothing.
\<close>

theorem buildKey_parseKey_counterexample:
  "wellFormedNames ''login'' protoRule
   \<and> buildKey ''login'' protoRule anonymousContext tagExtractor
       = Some ''login:per_tag:__proto__=x''
   \<and> embeddedDimensions protoRule anonymousContext tagExtractor ''__proto__'' = Some ''x''
   \<and> parseKey ''login:per_tag:__proto__=x''
       = Some \<lparr>pk_action = ''login'', pk_ruleName = ''per_tag'', pk_dimensions = Map.empty\<rparr>
   \<and> parseKey ''login:per_tag:__proto__=x''
       \<noteq> Some \<lparr>pk_action = ''login'', pk_ruleName = ''per_tag'',
                 pk_dimensions = embeddedDimensions protoRule anonymousContext tagExtractor\<rparr>"
proof -
  have w: "wellFormedNames ''login'' protoRule"
    by (simp add: wellFormedNames_def protoRule_def)
  have b: "buildKey ''login'' protoRule anonymousContext tagExtractor
       = Some ''login:per_tag:__proto__=x''"
    by (simp add: buildKey_def protoRule_def tagExtractor_def sanitizeValue_def)
  have e: "embeddedDimensions protoRule anonymousContext tagExtractor ''__proto__'' = Some ''x''"
    by (simp add: embeddedDimensions_def protoRule_def tagExtractor_def sanitizeValue_def)
  have p: "parseKey ''login:per_tag:__proto__=x''
       = Some \<lparr>pk_action = ''login'', pk_ruleName = ''per_tag'', pk_dimensions = Map.empty\<rparr>"
    by (simp add: parseKey_def parseSegment_def Let_def)
  have n: "Map.empty \<noteq> embeddedDimensions protoRule anonymousContext tagExtractor"
  proof
    assume "Map.empty = embeddedDimensions protoRule anonymousContext tagExtractor"
    then have "Map.empty ''__proto__''
                 = embeddedDimensions protoRule anonymousContext tagExtractor ''__proto__''"
      by (rule fun_cong)
    with e show False by simp
  qed
  from w b e p n show ?thesis by simp
qed

section \<open>Eviction\<close>

text \<open>
  The keys of the map are distinct; the constructor establishes this and every
  operation keeps it (\<open>new_store_distinct\<close>, \<open>runOp_distinct\<close> below).
\<close>

lemma delete_filter: "AList.delete k s = filter (\<lambda>p. fst p \<noteq> k) s"
  by (induction s) (auto simp: AList.delete_eq)

lemma update_absent: "k \<notin> fst ` set s \<Longrightarrow> AList.update k v s = s @ [(k, v)]"
  by (induction s) auto

lemma delete_only: 
  "distinct (map fst s) \<Longrightarrow> (k, e) \<in> set s \<Longrightarrow> set (AList.delete k s) = set s - {(k, e)}"
  by (auto simp: delete_filter dest: eq_key_imp_eq_value)

lemma evictExpired_subset: "set (evictExpired now t es s) \<subseteq> set s"
proof (induction now t es s rule: evictExpired.induct)
  case (1 now t s)
  show ?case by simp
next
  case (2 now t k entry rest s)
  have "set (AList.delete k s) \<subseteq> set s" by (auto simp: delete_filter)
  with 2 show ?case by (auto simp del: AList.delete_eq)
qed

lemma evictExpired_distinct:
  "distinct (map fst s) \<Longrightarrow> distinct (map fst (evictExpired now t es s))"
proof (induction now t es s rule: evictExpired.induct)
  case (1 now t s)
  then show ?case by simp
next
  case (2 now t k entry rest s)
  then show ?case by (simp add: distinct_delete)
qed

lemma rest_in_delete:
  assumes "distinct (map fst ((k, entry) # rest))" and "set ((k, entry) # rest) \<subseteq> set s"
    and "distinct (map fst s)"
  shows "set rest \<subseteq> set (AList.delete k s)"
proof -
  have "(k, entry) \<in> set s" using assms(2) by simp
  then have "set (AList.delete k s) = set s - {(k, entry)}"
    using assms(3) by (intro delete_only)
  moreover have "(k, entry) \<notin> set rest" using assms(1) by (auto simp: image_iff)
  ultimately show ?thesis using assms(2) by auto
qed

text \<open>Phase 1 removes expired entries only.\<close>

lemma evictExpired_keeps_live:
  "distinct (map fst s) \<Longrightarrow> distinct (map fst es) \<Longrightarrow> set es \<subseteq> set s \<Longrightarrow> p \<in> set s
     \<Longrightarrow> \<not> entryExpired now (snd p) \<Longrightarrow> p \<in> set (evictExpired now t es s)"
proof (induction now t es s rule: evictExpired.induct)
  case (1 now t s)
  then show ?case by simp
next
  case (2 now t k entry rest s)
  show ?case
  proof (cases "int (length s) \<le> t")
    case True
    with 2 show ?thesis by simp
  next
    case big: False
    have dr: "distinct (map fst rest)" using "2.prems"(2) by simp
    show ?thesis
    proof (cases "now \<ge> expiresAt (state entry)")
      case True
      have mem: "(k, entry) \<in> set s" using "2.prems"(3) by simp
      have del: "set (AList.delete k s) = set s - {(k, entry)}"
        using "2.prems"(1) mem by (rule delete_only)
      have pne: "p \<noteq> (k, entry)" using True "2.prems"(5) by (auto simp: entryExpired_def)
      have d: "distinct (map fst (AList.delete k s))"
        using "2.prems"(1) by (simp add: distinct_delete)
      have sub: "set rest \<subseteq> set (AList.delete k s)"
        using "2.prems"(2,3,1) by (rule rest_in_delete)
      have pin: "p \<in> set (AList.delete k s)" using del pne "2.prems"(4) by simp
      have "p \<in> set (evictExpired now t rest (AList.delete k s))"
        using "2.IH"(1) [OF big True d dr sub pin "2.prems"(5)] .
      then show ?thesis using big True by simp
    next
      case False
      have sub: "set rest \<subseteq> set s" using "2.prems"(3) by simp
      have "p \<in> set (evictExpired now t rest s)"
        using "2.IH"(2) [OF big False "2.prems"(1) dr sub "2.prems"(4,5)] .
      then show ?thesis using big False by simp
    qed
  qed
qed

text \<open>If phase 1 ends above the target, no expired entry of the visited list is left.\<close>

lemma evictExpired_exhausts:
  "distinct (map fst s) \<Longrightarrow> distinct (map fst es) \<Longrightarrow> set es \<subseteq> set s
     \<Longrightarrow> int (length (evictExpired now t es s)) > t
     \<Longrightarrow> p \<in> set (evictExpired now t es s) \<Longrightarrow> p \<in> set es
     \<Longrightarrow> \<not> entryExpired now (snd p)"
proof (induction now t es s rule: evictExpired.induct)
  case (1 now t s)
  then show ?case by simp
next
  case (2 now t k entry rest s)
  show ?case
  proof (cases "int (length s) \<le> t")
    case True
    with "2.prems"(4) show ?thesis by simp
  next
    case big: False
    have dr: "distinct (map fst rest)" using "2.prems"(2) by simp
    show ?thesis
    proof (cases "now \<ge> expiresAt (state entry)")
      case True
      let ?s' = "AList.delete k s"
      have res: "evictExpired now t ((k, entry) # rest) s = evictExpired now t rest ?s'"
        using big True by simp
      have d: "distinct (map fst ?s')" using "2.prems"(1) by (simp add: distinct_delete)
      have sub: "set rest \<subseteq> set ?s'" using "2.prems"(2,3,1) by (rule rest_in_delete)
      have len: "int (length (evictExpired now t rest ?s')) > t" using "2.prems"(4) res by simp
      have pin: "p \<in> set (evictExpired now t rest ?s')" using "2.prems"(5) res by simp
      have "p \<in> set ?s'" using pin evictExpired_subset by blast
      then have "fst p \<noteq> k" by (auto simp: delete_filter)
      then have "p \<in> set rest" using "2.prems"(6) by auto
      from "2.IH"(1) [OF big True d dr sub len pin this] show ?thesis .
    next
      case False
      have res: "evictExpired now t ((k, entry) # rest) s = evictExpired now t rest s"
        using big False by simp
      have sub: "set rest \<subseteq> set s" using "2.prems"(3) by simp
      have len: "int (length (evictExpired now t rest s)) > t" using "2.prems"(4) res by simp
      have pin: "p \<in> set (evictExpired now t rest s)" using "2.prems"(5) res by simp
      show ?thesis
      proof (cases "p = (k, entry)")
        case True
        with False show ?thesis by (simp add: entryExpired_def)
      next
        case False
        then have "p \<in> set rest" using "2.prems"(6) by simp
        from "2.IH"(2) [OF big \<open>\<not> now \<ge> expiresAt (state entry)\<close> "2.prems"(1) dr sub len pin this]
        show ?thesis .
      qed
    qed
  qed
qed

text \<open>Phase 2.\<close>

lemma fold_delete_filter:
  "foldl (\<lambda>acc e. AList.delete (fst e) acc) s vs = filter (\<lambda>p. fst p \<notin> fst ` set vs) s"
proof (induction vs arbitrary: s)
  case Nil
  show ?case by simp
next
  case (Cons v vs)
  have "foldl (\<lambda>acc e. AList.delete (fst e) acc) s (v # vs)
          = foldl (\<lambda>acc e. AList.delete (fst e) acc) (AList.delete (fst v) s) vs"
    by simp
  also have "\<dots> = filter (\<lambda>p. fst p \<notin> fst ` set vs) (AList.delete (fst v) s)"
    by (rule Cons.IH)
  also have "\<dots> = filter (\<lambda>p. fst p \<notin> fst ` set vs) (filter (\<lambda>p. fst p \<noteq> fst v) s)"
    by (simp only: delete_filter)
  also have "\<dots> = filter (\<lambda>p. fst p \<notin> fst ` set (v # vs)) s"
    by (auto intro: filter_cong)
  finally show ?case .
qed

lemma survivors_are_drop:
  assumes d: "distinct (map fst s)" and st: "set xs = set s" and dx: "distinct xs"
  shows "set (filter (\<lambda>p. fst p \<notin> fst ` set (take j xs)) s) = set (drop j xs)"
proof -
  have inj: "inj_on fst (set s)" using d by (simp add: distinct_map)
  have split: "set xs = set (take j xs) \<union> set (drop j xs)"
    by (metis append_take_drop_id set_append)
  have disj: "set (take j xs) \<inter> set (drop j xs) = {}"
    using dx by (metis append_take_drop_id distinct_append)
  show ?thesis
  proof (intro set_eqI iffI)
    fix p
    assume "p \<in> set (filter (\<lambda>p. fst p \<notin> fst ` set (take j xs)) s)"
    then have "p \<in> set s" and "fst p \<notin> fst ` set (take j xs)" by auto
    then have "p \<notin> set (take j xs)" by auto
    with \<open>p \<in> set s\<close> st split show "p \<in> set (drop j xs)" by auto
  next
    fix p
    assume pd: "p \<in> set (drop j xs)"
    then have ps: "p \<in> set s" using st split by auto
    have "fst p \<notin> fst ` set (take j xs)"
    proof
      assume "fst p \<in> fst ` set (take j xs)"
      then obtain q where q: "q \<in> set (take j xs)" "fst q = fst p" by auto
      then have "q \<in> set s" using st split by auto
      with inj ps q(2) have "q = p" by (auto dest: inj_onD)
      with q(1) pd disj show False by auto
    qed
    with ps show "p \<in> set (filter (\<lambda>p. fst p \<notin> fst ` set (take j xs)) s)" by simp
  qed
qed

lemma evictOldest_set:
  assumes d: "distinct (map fst s)" and big: "int (length s) > t"
  shows "set (evictOldest t s)
           = set (drop (nat (int (length s) - t)) (sort_key (\<lambda>e. lastAccessedAt (snd e)) s))"
proof -
  let ?xs = "sort_key (\<lambda>e. lastAccessedAt (snd e)) s"
  have ds: "distinct ?xs" using d by (simp add: distinct_map)
  have st: "set ?xs = set s" by simp
  have "evictOldest t s
          = filter (\<lambda>p. fst p \<notin> fst ` set (take (nat (int (length s) - t)) ?xs)) s"
    using big by (simp add: evictOldest_def Let_def fold_delete_filter)
  then show ?thesis
    using survivors_are_drop [OF d st ds, of "nat (int (length s) - t)"] by simp
qed

lemma evictOldest_distinct:
  "distinct (map fst s) \<Longrightarrow> distinct (map fst (evictOldest t s))"
  by (simp add: evictOldest_def Let_def fold_delete_filter distinct_map_filter)

lemma evictOldest_length:
  assumes d: "distinct (map fst s)"
  shows "int (length (evictOldest t s)) \<le> max t 0"
proof (cases "int (length s) > t")
  case False
  then show ?thesis by (simp add: evictOldest_def)
next
  case True
  let ?xs = "sort_key (\<lambda>e. lastAccessedAt (snd e)) s"
  let ?j = "nat (int (length s) - t)"
  have ds: "distinct s" using d by (simp add: distinct_map)
  have d1: "distinct (evictOldest t s)"
    using evictOldest_distinct [OF d, of t] by (simp add: distinct_map)
  have d2: "distinct (drop ?j ?xs)" using ds by simp
  have "length (evictOldest t s) = card (set (evictOldest t s))"
    using d1 by (simp add: distinct_card)
  also have "\<dots> = card (set (drop ?j ?xs))"
    using evictOldest_set [OF d True] by simp
  also have "\<dots> = length (drop ?j ?xs)" using d2 by (simp add: distinct_card)
  also have "\<dots> = length s - ?j" by simp
  finally have "length (evictOldest t s) = length s - ?j" .
  then show ?thesis using True by (simp add: max_def)
qed

lemma evictOldest_subset: "set (evictOldest t s) \<subseteq> set s"
  by (auto simp: evictOldest_def Let_def fold_delete_filter)

text \<open>Every entry phase 2 removes was accessed no later than every entry it keeps.\<close>

lemma evictOldest_order:
  assumes d: "distinct (map fst s)" and x: "x \<in> set s" "x \<notin> set (evictOldest t s)"
    and r: "r \<in> set (evictOldest t s)"
  shows "lastAccessedAt (snd x) \<le> lastAccessedAt (snd r)"
proof -
  let ?f = "\<lambda>e. lastAccessedAt (snd e)"
  let ?xs = "sort_key ?f s"
  let ?j = "nat (int (length s) - t)"
  have big: "int (length s) > t"
    using x by (cases "int (length s) > t") (simp_all add: evictOldest_def)
  have surv: "set (evictOldest t s) = set (drop ?j ?xs)" using d big by (rule evictOldest_set)
  have "x \<in> set (take ?j ?xs) \<union> set (drop ?j ?xs)"
    using x(1) by (metis append_take_drop_id set_append set_sort)
  with x(2) surv have xt: "x \<in> set (take ?j ?xs)" by auto
  have rd: "r \<in> set (drop ?j ?xs)" using r surv by simp
  have "sorted (map ?f (take ?j ?xs @ drop ?j ?xs))"
    by (simp only: append_take_drop_id sorted_sort_key)
  then have "\<forall>a\<in>set (map ?f (take ?j ?xs)). \<forall>b\<in>set (map ?f (drop ?j ?xs)). a \<le> b"
    by (simp only: map_append sorted_append) blast
  with xt rd show ?thesis by auto
qed

lemma evictEntries_bounds:
  assumes wf: "distinct (map fst (store m))"
  shows "int (length (store (evictEntries now m)))
           \<le> max (highWaterMark (options m) - evictionCount (options m)) 0"
    and "set (store (evictEntries now m)) \<subseteq> set (store m)"
    and "distinct (map fst (store (evictEntries now m)))"
proof -
  let ?t = "highWaterMark (options m) - evictionCount (options m)"
  let ?s1 = "evictExpired now ?t (store m) (store m)"
  have d1: "distinct (map fst ?s1)" using wf by (rule evictExpired_distinct)
  have st: "store (evictEntries now m) = evictOldest ?t ?s1"
    by (simp add: evictEntries_def Let_def)
  show "int (length (store (evictEntries now m))) \<le> max ?t 0"
    unfolding st using d1 by (rule evictOldest_length)
  show "set (store (evictEntries now m)) \<subseteq> set (store m)"
    unfolding st using evictOldest_subset [of ?t ?s1] evictExpired_subset [of now ?t "store m" "store m"]
    by blast
  show "distinct (map fst (store (evictEntries now m)))"
    unfolding st using d1 by (rule evictOldest_distinct)
qed

lemma evictEntries_order:
  assumes wf: "distinct (map fst (store m))"
    and x: "x \<in> set (store m)" "x \<notin> set (store (evictEntries now m))"
           "\<not> entryExpired now (snd x)"
    and r: "r \<in> set (store (evictEntries now m))"
  shows "\<not> entryExpired now (snd r) \<and> lastAccessedAt (snd x) \<le> lastAccessedAt (snd r)"
proof -
  let ?t = "highWaterMark (options m) - evictionCount (options m)"
  let ?s1 = "evictExpired now ?t (store m) (store m)"
  have d1: "distinct (map fst ?s1)" using wf by (rule evictExpired_distinct)
  have st: "store (evictEntries now m) = evictOldest ?t ?s1"
    by (simp add: evictEntries_def Let_def)
  have x1: "x \<in> set ?s1"
    using wf wf _ x(1) x(3) by (rule evictExpired_keeps_live) simp
  have xn: "x \<notin> set (evictOldest ?t ?s1)" using x(2) st by simp
  have big: "int (length ?s1) > ?t"
    using x1 xn by (cases "int (length ?s1) > ?t") (simp_all add: evictOldest_def)
  have r1: "r \<in> set (evictOldest ?t ?s1)" using r st by simp
  then have r2: "r \<in> set ?s1" using evictOldest_subset by blast
  then have r3: "r \<in> set (store m)" using evictExpired_subset by blast
  have "\<not> entryExpired now (snd r)"
    using wf wf _ big r2 r3 by (rule evictExpired_exhausts) simp
  moreover have "lastAccessedAt (snd x) \<le> lastAccessedAt (snd r)"
    using d1 x1 xn r1 by (rule evictOldest_order)
  ultimately show ?thesis by simp
qed

lemma sweep_fold_distinct:
  "distinct (map fst s) \<Longrightarrow>
     distinct (map fst (foldl (\<lambda>acc e. if now \<ge> expiresAt (state (snd e))
                                        then AList.delete (fst e) acc else acc) s es))"
  by (induction es arbitrary: s) (simp_all add: distinct_delete)

lemma new_store_distinct: "distinct (map fst (store (newMemoryStore opts)))"
  by (simp add: newMemoryStore_def Let_def)

lemma runOp_distinct:
  assumes "distinct (map fst (store m))"
  shows "distinct (map fst (store (snd (runOp op now m))))"
proof (cases op)
  case (OpGet k)
  then show ?thesis using assms
    by (simp add: ms_get_def checkShutdown_def distinct_delete distinct_update
        split: option.splits)
next
  case (OpSet k st ttlMs)
  have "distinct (map fst (store (evictEntries now m)))"
    using assms by (rule evictEntries_bounds(3))
  then show ?thesis using assms OpSet
    by (simp add: ms_set_def checkShutdown_def Let_def distinct_update split: option.splits)
next
  case (OpDelete k)
  then show ?thesis using assms by (simp add: ms_delete_def checkShutdown_def distinct_delete)
next
  case (OpHas k)
  then show ?thesis using assms
    by (simp add: ms_has_def checkShutdown_def distinct_delete split: option.splits)
next
  case OpSize
  then show ?thesis using assms by (simp add: ms_size_def checkShutdown_def)
next
  case OpClear
  then show ?thesis using assms by (simp add: ms_clear_def checkShutdown_def)
next
  case OpShutdown
  then show ?thesis using assms by (simp add: ms_shutdown_def)
next
  case OpSweepTick
  then show ?thesis using assms by (simp add: sweep_def sweep_fold_distinct)
qed

lemma fullStore_set:
  "store (snd (ms_set ''e'' (liveState 500) 77 100 fullStore))
     = [(''a'', \<lparr>state = liveState 500, lastAccessedAt = 30\<rparr>),
        (''d'', \<lparr>state = liveState 500, lastAccessedAt = 40\<rparr>),
        (''e'', \<lparr>state = liveState 500, lastAccessedAt = 100\<rparr>)]"
  by (simp add: ms_set_def checkShutdown_def fullStore_def evictEntries_def evictOldest_def
      Let_def liveState_def)

section \<open>Claims about eviction\<close>

text \<open>
  Claim C7, as the code has it. The entries of a store are a \<open>Map\<close>, so their keys
  are distinct. For every store that is not shut down and whose size is at or over
  \<open>highWaterMark\<close>, a \<open>set\<close> on a new key first evicts toward the target size
  \<open>highWaterMark - evictionCount\<close> and then appends the new entry: after the
  insertion the size is at most \<open>max (highWaterMark - evictionCount) 0 + 1\<close>, which is
  \<open>highWaterMark - evictionCount + 1\<close> whenever \<open>evictionCount\<close> does not exceed
  \<open>highWaterMark\<close>. For every store, every \<open>highWaterMark\<close> and every
  \<open>evictionCount\<close>, eviction leaves at most \<open>max (highWaterMark - evictionCount) 0\<close>
  entries and only removes entries, and whenever it removes an entry that is not
  expired, no expired entry is left and every entry left was last accessed no earlier
  than the removed one.
\<close>

theorem set_evicts:
  assumes wf: "distinct (map fst (store m))"
  shows "(\<not> isShutdown m \<and> map_of (store m) k = None
          \<and> highWaterMark (options m) \<le> int (length (store m)) \<longrightarrow>
            ms_set k st ttlMs now m
              = (Inr (), (evictEntries now m)
                           \<lparr>store := store (evictEntries now m)
                                       @ [(k, \<lparr>state = st, lastAccessedAt = now\<rparr>)]\<rparr>)
          \<and> int (length (store (snd (ms_set k st ttlMs now m))))
              \<le> max (highWaterMark (options m) - evictionCount (options m)) 0 + 1
          \<and> (evictionCount (options m) \<le> highWaterMark (options m) \<longrightarrow>
                int (length (store (snd (ms_set k st ttlMs now m))))
                  \<le> highWaterMark (options m) - evictionCount (options m) + 1))
       \<and> int (length (store (evictEntries now m)))
           \<le> max (highWaterMark (options m) - evictionCount (options m)) 0
       \<and> set (store (evictEntries now m)) \<subseteq> set (store m)
       \<and> (\<forall>x\<in>set (store m) - set (store (evictEntries now m)).
             \<not> entryExpired now (snd x) \<longrightarrow>
               (\<forall>r\<in>set (store (evictEntries now m)).
                  \<not> entryExpired now (snd r)
                \<and> lastAccessedAt (snd x) \<le> lastAccessedAt (snd r)))"
proof -
  let ?e = "evictEntries now m"
  let ?t = "highWaterMark (options m) - evictionCount (options m)"
  have sub: "set (store ?e) \<subseteq> set (store m)" using wf by (rule evictEntries_bounds(2))
  have len: "int (length (store ?e)) \<le> max ?t 0"
    using wf by (rule evictEntries_bounds(1))
  have ins: "ms_set k st ttlMs now m
               = (Inr (), ?e\<lparr>store := store ?e @ [(k, \<lparr>state = st, lastAccessedAt = now\<rparr>)]\<rparr>)
          \<and> int (length (store (snd (ms_set k st ttlMs now m)))) \<le> max ?t 0 + 1
          \<and> (evictionCount (options m) \<le> highWaterMark (options m) \<longrightarrow>
                int (length (store (snd (ms_set k st ttlMs now m)))) \<le> ?t + 1)"
    if live: "\<not> isShutdown m" and new: "map_of (store m) k = None"
      and full: "highWaterMark (options m) \<le> int (length (store m))"
  proof -
    have "k \<notin> fst ` set (store m)" using new by (simp add: map_of_eq_None_iff)
    then have "k \<notin> fst ` set (store ?e)" using sub by auto
    then have app: "AList.update k \<lparr>state = st, lastAccessedAt = now\<rparr> (store ?e)
                      = store ?e @ [(k, \<lparr>state = st, lastAccessedAt = now\<rparr>)]"
      by (rule update_absent)
    have eq: "ms_set k st ttlMs now m
             = (Inr (), ?e\<lparr>store := store ?e @ [(k, \<lparr>state = st, lastAccessedAt = now\<rparr>)]\<rparr>)"
      using live new full by (simp add: ms_set_def checkShutdown_def Let_def app)
    have len2: "int (length (store (snd (ms_set k st ttlMs now m)))) \<le> max ?t 0 + 1"
      using len by (simp add: eq)
    have len3: "int (length (store (snd (ms_set k st ttlMs now m)))) \<le> ?t + 1"
      if "evictionCount (options m) \<le> highWaterMark (options m)"
      using len2 that by linarith
    from eq len2 len3 show ?thesis by blast
  qed
  have ord: "\<forall>x\<in>set (store m) - set (store ?e).
             \<not> entryExpired now (snd x) \<longrightarrow>
               (\<forall>r\<in>set (store ?e).
                  \<not> entryExpired now (snd r)
                \<and> lastAccessedAt (snd x) \<le> lastAccessedAt (snd r))"
    using evictEntries_order [OF wf] by blast
  from ins len sub ord show ?thesis by blast
qed

text \<open>
  The theorem at a store of four entries with high water mark 4 and eviction count
  2: the expired entry \<open>b\<close> goes first, then \<open>c\<close>, the oldest of the others. At the
  store with high water mark 1 and eviction count 2 the eviction removes the one
  entry, which is not expired, and the size after the insertion is 1.
\<close>

theorem set_evicts_witness:
  "distinct (map fst (store fullStore))
   \<and> \<not> isShutdown fullStore
   \<and> map_of (store fullStore) ''e'' = None
   \<and> highWaterMark (options fullStore) \<le> int (length (store fullStore))
   \<and> evictionCount (options fullStore) \<le> highWaterMark (options fullStore)
   \<and> int (length (store (snd (ms_set ''e'' (liveState 500) 77 100 fullStore)))) \<le> 3
   \<and> store (snd (ms_set ''e'' (liveState 500) 77 100 fullStore))
       = [(''a'', \<lparr>state = liveState 500, lastAccessedAt = 30\<rparr>),
          (''d'', \<lparr>state = liveState 500, lastAccessedAt = 40\<rparr>),
          (''e'', \<lparr>state = liveState 500, lastAccessedAt = 100\<rparr>)]
   \<and> distinct (map fst (store tinyStore))
   \<and> \<not> isShutdown tinyStore
   \<and> map_of (store tinyStore) ''b'' = None
   \<and> highWaterMark (options tinyStore) \<le> int (length (store tinyStore))
   \<and> int (length (store (snd (ms_set ''b'' (liveState 500) 500 0 tinyStore)))) \<le> 1"
proof -
  have h1: "distinct (map fst (store fullStore))" by (simp add: fullStore_def)
  have h2: "\<not> isShutdown fullStore" by (simp add: fullStore_def)
  have h3: "map_of (store fullStore) ''e'' = None" by (simp add: fullStore_def)
  have h4: "highWaterMark (options fullStore) \<le> int (length (store fullStore))"
    by (simp add: fullStore_def)
  have h5: "evictionCount (options fullStore) \<le> highWaterMark (options fullStore)"
    by (simp add: fullStore_def)
  have o: "highWaterMark (options fullStore) - evictionCount (options fullStore) + 1 = 3"
    by (simp add: fullStore_def)
  note t = set_evicts [OF h1, where k = "''e''" and st = "liveState 500" and ttlMs = 77
      and now = 100, THEN conjunct1]
  from t h2 h3 h4 h5
  have "int (length (store (snd (ms_set ''e'' (liveState 500) 77 100 fullStore))))
                 \<le> highWaterMark (options fullStore) - evictionCount (options fullStore) + 1"
    by blast
  then have b: "int (length (store (snd (ms_set ''e'' (liveState 500) 77 100 fullStore)))) \<le> 3"
    by (simp only: o)
  have g1: "distinct (map fst (store tinyStore))"
    by (simp add: tinyStore_def newMemoryStore_def ms_set_def checkShutdown_def)
  have g2: "\<not> isShutdown tinyStore"
    by (simp add: tinyStore_def newMemoryStore_def ms_set_def checkShutdown_def)
  have g3: "map_of (store tinyStore) ''b'' = None"
    by (simp add: tinyStore_def newMemoryStore_def ms_set_def checkShutdown_def)
  have g4: "highWaterMark (options tinyStore) \<le> int (length (store tinyStore))"
    by (simp add: tinyStore_def newMemoryStore_def ms_set_def checkShutdown_def)
  have p: "max (highWaterMark (options tinyStore) - evictionCount (options tinyStore)) 0 + 1 = 1"
    by (simp add: tinyStore_def newMemoryStore_def ms_set_def checkShutdown_def)
  note u = set_evicts [OF g1, where k = "''b''" and st = "liveState 500" and ttlMs = 500
      and now = 0, THEN conjunct1]
  from u g2 g3 g4
  have "int (length (store (snd (ms_set ''b'' (liveState 500) 500 0 tinyStore))))
          \<le> max (highWaterMark (options tinyStore) - evictionCount (options tinyStore)) 0 + 1"
    by blast
  then have c: "int (length (store (snd (ms_set ''b'' (liveState 500) 500 0 tinyStore)))) \<le> 1"
    by (simp only: p)
  from h1 h2 h3 h4 h5 b fullStore_set g1 g2 g3 g4 c show ?thesis by blast
qed

text \<open>
  The claim as written fails when \<open>evictionCount\<close> exceeds \<open>highWaterMark\<close>, here
  2 and 1: the target is negative, eviction empties the store, and after the insertion
  the size is 1, above \<open>highWaterMark - evictionCount + 1 = 0\<close>. The constructor
  checks no option, and its default eviction count of 10000 exceeds every smaller
  high water mark given alone.
\<close>

theorem set_evicts_counterexample:
  "int (length (store tinyStore)) \<ge> highWaterMark (options tinyStore)
   \<and> map_of (store tinyStore) ''b'' = None
   \<and> \<not> int (length (store (snd (ms_set ''b'' (liveState 500) 500 0 tinyStore))))
         \<le> highWaterMark (options tinyStore) - evictionCount (options tinyStore) + 1
   \<and> int (length (store (snd (ms_set ''b'' (liveState 500) 500 0 tinyStore)))) = 1
   \<and> highWaterMark (options tinyStore) - evictionCount (options tinyStore) + 1 = 0"
  by (simp add: tinyStore_def newMemoryStore_def DEFAULT_OPTIONS_def ms_set_def
      checkShutdown_def evictEntries_def evictOldest_def Let_def liveState_def)

end
